theory Spec2Isabelle
  imports Complex_Main
begin

text \<open>
  A model of the numeric core of the multi-camera scene viewer: the importance sampler and
  the voxel outline of \<open>LightweightSceneViewer.js\<close>, the camera/person relations and the
  recommended camera of \<open>SceneViewerTest\<close>, and the reconnection logic of
  \<open>trackingService.js\<close>. Each function of the source is a definition of the same name;
  the definitions come first, the properties proved about them follow.
\<close>

section \<open>Numbers and vectors\<close>

text \<open>
  A JavaScript number is a double; a finite double is a real number, and the model works
  on \<^typ>\<open>real\<close>. What the source computes from numbers that are not integers is rounded
  after every operation: \<open>fl\<close> rounds a real to the nearest double, ties to the even
  significand, with 53 bits above \<open>2^(-1022)\<close> and the fixed spacing \<open>2^(-1074)\<close> below.
  A result beyond the range of the doubles, which JavaScript turns into \<open>Infinity\<close>, is
  outside the model, with two exceptions that the sampler reaches from finite inputs: the
  strides \<open>1 / density\<close> with density 0 and \<open>n / maxPoints\<close> with maxPoints 0 are
  \<open>Infinity\<close>, a constructor of their own. Quotients of array lengths and counts are only
  compared with integers or rounded to integers, which rounding to a double does not
  change for lengths an array can have; they are kept exact.
\<close>

definition round_even :: "real \<Rightarrow> int" where
  \<comment> \<open>the nearest integer, the even one of two equally near\<close>
  "round_even r =
     (let f = \<lfloor>r\<rfloor> in
      if r - of_int f < 1 / 2 then f
      else if 1 / 2 < r - of_int f then f + 1
      else if even f then f else f + 1)"

definition double_exponent :: "real \<Rightarrow> int" where
  \<comment> \<open>the binary exponent of a double near \<open>x\<close>, at least that of the smallest normal one\<close>
  "double_exponent x = max (- 1022) \<lfloor>log 2 \<bar>x\<bar>\<rfloor>"

definition fl :: "real \<Rightarrow> real" where
  "fl x =
     (if x = 0 then 0
      else of_int (round_even (x / 2 powi (double_exponent x - 52)))
             * 2 powi (double_exponent x - 52))"

datatype stride = Finite nat | Infinity

type_synonym vec3 = "real \<times> real \<times> real"

definition euclid :: "vec3 \<Rightarrow> vec3 \<Rightarrow> real" where
  \<comment> \<open>the Euclidean distance\<close>
  "euclid a b =
     (case a of (ax, ay, az) \<Rightarrow> case b of (bx, by, bz) \<Rightarrow>
        sqrt ((ax - bx) * (ax - bx) + (ay - by) * (ay - by) + (az - bz) * (az - bz)))"

definition js_sqdist :: "vec3 \<Rightarrow> vec3 \<Rightarrow> real" where
  \<comment> \<open>\<open>dx = a[0] - b[0]; dy = ...; dz = ...; dx*dx + dy*dy + dz*dz\<close> in doubles\<close>
  "js_sqdist a b =
     (case a of (ax, ay, az) \<Rightarrow> case b of (bx, by, bz) \<Rightarrow>
        (let dx = fl (ax - bx); dy = fl (ay - by); dz = fl (az - bz)
         in fl (fl (fl (dx * dx) + fl (dy * dy)) + fl (dz * dz))))"

definition js_distance :: "vec3 \<Rightarrow> vec3 \<Rightarrow> real" where
  \<comment> \<open>\<open>Math.sqrt(dx*dx + dy*dy + dz*dz)\<close> in doubles\<close>
  "js_distance a b = fl (sqrt (js_sqdist a b))"

definition triple_at :: "real list \<Rightarrow> nat \<Rightarrow> vec3" where
  \<comment> \<open>\<open>[a[idx], a[idx+1], a[idx+2]]\<close> of a flat array\<close>
  "triple_at a idx = (a ! idx, a ! (idx + 1), a ! (idx + 2))"

definition flat :: "vec3 \<Rightarrow> real list" where
  "flat p = (case p of (x, y, z) \<Rightarrow> [x, y, z])"

section \<open>Point-cloud importance sampler (SimplifiedPointCloud)\<close>

text \<open>
  \<open>points\<close> and \<open>colors\<close> are the flat arrays the component receives
  (\<open>point_cloud.points.flat()\<close>); \<open>colors\<close> may be \<open>null\<close>. \<open>density\<close> is the
  sampling fraction. \<open>maxPoints\<close> is the cap on the number of points, a natural number:
  the application passes one of 5000 to 100000, read with \<open>parseInt\<close>.
\<close>

definition importanceThreshold :: real where
  \<comment> \<open>the double written \<open>0.01\<close>\<close>
  "importanceThreshold = fl (1 / 100)"

definition colorThreshold :: real where
  \<comment> \<open>the double written \<open>0.1\<close>\<close>
  "colorThreshold = fl (1 / 10)"

definition base_interval :: "real \<Rightarrow> stride" where
  \<comment> \<open>\<open>Math.max(1, Math.floor(1 / density))\<close>, the quotient rounded to a double;
      \<open>1 / 0\<close> is \<open>Infinity\<close>\<close>
  "base_interval density =
     (if density = 0 then Infinity else Finite (nat (max 1 \<lfloor>fl (1 / density)\<rfloor>)))"

definition over_cap :: "real \<Rightarrow> stride \<Rightarrow> nat \<Rightarrow> bool" where
  \<comment> \<open>\<open>totalPoints / interval > maxPoints\<close>; a quotient by \<open>Infinity\<close> is 0\<close>
  "over_cap totalPoints interval maxPoints =
     (case interval of
        Finite k \<Rightarrow> real maxPoints < totalPoints / real k
      | Infinity \<Rightarrow> False)"

definition ceil_ratio :: "real \<Rightarrow> nat \<Rightarrow> stride" where
  \<comment> \<open>\<open>Math.ceil(a / maxPoints)\<close> for \<open>a > 0\<close>, which both call sites guarantee\<close>
  "ceil_ratio a maxPoints =
     (if maxPoints = 0 then Infinity else Finite (nat \<lceil>a / real maxPoints\<rceil>))"

definition first_interval :: "real \<Rightarrow> real \<Rightarrow> nat \<Rightarrow> stride" where
  "first_interval totalPoints density maxPoints =
     (let interval = base_interval density in
      if over_cap totalPoints interval maxPoints
      then ceil_ratio totalPoints maxPoints
      else interval)"

definition hits_interval :: "nat \<Rightarrow> stride \<Rightarrow> bool" where
  \<comment> \<open>\<open>i % interval === 0\<close>: \<open>i % Infinity\<close> is \<open>i\<close>, \<open>i % 0\<close> is \<open>NaN\<close>\<close>
  "hits_interval i interval =
     (case interval of
        Finite k \<Rightarrow> 0 < k \<and> i mod k = 0
      | Infinity \<Rightarrow> i = 0)"

record sampler_state =
  sampledPointsArray :: "real list"
  sampledColorsArray :: "real list"
  lastPoint :: "vec3 option"
  lastColor :: "vec3 option"

definition sampler_init :: sampler_state where
  "sampler_init =
     \<lparr>sampledPointsArray = [], sampledColorsArray = [], lastPoint = None, lastColor = None\<rparr>"

definition colorImportant :: "real list option \<Rightarrow> nat \<Rightarrow> sampler_state \<Rightarrow> bool" where
  \<comment> \<open>the block under \<open>if (colors && lastColor)\<close>; a read past the end of \<open>colors\<close>
      is \<open>undefined\<close>, the difference \<open>NaN\<close> and the comparison false\<close>
  "colorImportant colors idx st =
     (case colors of
        None \<Rightarrow> False
      | Some cs \<Rightarrow>
          (case lastColor st of
             None \<Rightarrow> False
           | Some lc \<Rightarrow>
               idx + 2 < length cs \<and> colorThreshold < js_distance (triple_at cs idx) lc))"

definition isImportant :: "real list \<Rightarrow> real list option \<Rightarrow> nat \<Rightarrow> sampler_state \<Rightarrow> bool" where
  "isImportant points colors idx st =
     (case lastPoint st of
        None \<Rightarrow> False
      | Some lp \<Rightarrow>
          importanceThreshold < js_distance (triple_at points idx) lp
          \<or> colorImportant colors idx st)"

definition keep_test :: "real list \<Rightarrow> real list option \<Rightarrow> stride \<Rightarrow> nat \<Rightarrow> sampler_state \<Rightarrow> bool" where
  \<comment> \<open>\<open>i % interval === 0 || isImportant\<close>\<close>
  "keep_test points colors interval i st =
     (hits_interval i interval \<or> isImportant points colors (i * 3) st)"

definition colors_recorded :: "real list \<Rightarrow> real list option \<Rightarrow> bool" where
  \<comment> \<open>\<open>colors && colors.length >= points.length\<close>\<close>
  "colors_recorded points colors =
     (case colors of None \<Rightarrow> False | Some cs \<Rightarrow> length points \<le> length cs)"

definition push_sample :: "real list \<Rightarrow> real list option \<Rightarrow> nat \<Rightarrow> sampler_state \<Rightarrow> sampler_state" where
  "push_sample points colors idx st =
     (let st1 = st\<lparr>sampledPointsArray := sampledPointsArray st @ flat (triple_at points idx)\<rparr>;
          st2 = (if colors_recorded points colors
                 then st1\<lparr>sampledColorsArray :=
                            sampledColorsArray st1 @ flat (triple_at (the colors) idx),
                          lastColor := Some (triple_at (the colors) idx)\<rparr>
                 else st1)
      in st2\<lparr>lastPoint := Some (triple_at points idx)\<rparr>)"

definition sample_step :: "real list \<Rightarrow> real list option \<Rightarrow> stride \<Rightarrow> nat \<Rightarrow> sampler_state \<Rightarrow> sampler_state" where
  \<comment> \<open>one iteration of the first loop\<close>
  "sample_step points colors interval i st =
     (if i * 3 + 2 < length points
      then (if keep_test points colors interval i st
            then push_sample points colors (i * 3) st
            else st)
      else st)"

definition loop_bound :: "real \<Rightarrow> nat" where
  \<comment> \<open>the number of \<open>i = 0, 1, ...\<close> with \<open>i < totalPoints\<close>\<close>
  "loop_bound totalPoints = nat \<lceil>totalPoints\<rceil>"

definition state_before :: "real list \<Rightarrow> real list option \<Rightarrow> stride \<Rightarrow> nat \<Rightarrow> sampler_state" where
  \<comment> \<open>the loop state on entry to iteration \<open>i\<close>\<close>
  "state_before points colors interval i =
     fold (sample_step points colors interval) [0..<i] sampler_init"

definition first_pass :: "real list \<Rightarrow> real list option \<Rightarrow> stride \<Rightarrow> sampler_state" where
  "first_pass points colors interval =
     state_before points colors interval (loop_bound (real (length points) / 3))"

text \<open>
  The second loop, \<open>for (i = 0; i < n / 3; i += resampleInterval)\<close>. \<open>finalColors\<close> is
  \<open>null\<close> (\<open>None\<close>) when no color was sampled. The stride the loop receives is
  \<open>Math.ceil\<close> of a quotient greater than 1, or \<open>Infinity\<close>, after which the loop
  condition fails at once. With a stride 0 the source would not leave the loop; the test
  \<open>0 < k\<close> makes the function total and is never false on a stride the sampler computes
  (\<open>resample_stride_pos\<close> below).
\<close>

definition resample_body ::
  "real list \<Rightarrow> real list \<Rightarrow> nat \<Rightarrow> real list \<times> real list option \<Rightarrow> real list \<times> real list option" where
  \<comment> \<open>the body of the second loop\<close>
  "resample_body sp sc i acc =
     (if i * 3 + 2 < length sp
      then (fst acc @ flat (triple_at sp (i * 3)),
            map_option (\<lambda>fc. fc @ flat (triple_at sc (i * 3))) (snd acc))
      else acc)"

function resample_loop ::
  "real list \<Rightarrow> real list \<Rightarrow> stride \<Rightarrow> nat \<Rightarrow> real list \<times> real list option
     \<Rightarrow> real list \<times> real list option" where
  "resample_loop sp sc step i acc =
     (if real i < real (length sp) / 3 then
        (case step of
           Infinity \<Rightarrow> resample_body sp sc i acc
         | Finite k \<Rightarrow>
             if 0 < k then resample_loop sp sc step (i + k) (resample_body sp sc i acc)
             else resample_body sp sc i acc)
      else acc)"
  by pat_completeness auto
termination
  by (relation "measure (\<lambda>(sp, sc, step, i, acc). length sp - 3 * i)") auto

declare resample_loop.simps [simp del]

definition sample :: "real list \<Rightarrow> real list option \<Rightarrow> real \<Rightarrow> nat \<Rightarrow> real list \<times> real list option" where
  \<comment> \<open>the body of \<open>useMemo\<close>: \<open>(sampledPoints, sampledColors)\<close>\<close>
  "sample points colors density maxPoints =
     (let totalPoints = real (length points) / 3;
          interval = first_interval totalPoints density maxPoints;
          st = first_pass points colors interval;
          sp = sampledPointsArray st;
          sc = sampledColorsArray st
      in if real maxPoints < real (length sp) / 3 then
           resample_loop sp sc (ceil_ratio (real (length sp) / 3) maxPoints) 0
             ([], if sc \<noteq> [] then Some [] else None)
         else (sp, if sc \<noteq> [] then Some sc else None))"

definition SimplifiedPointCloud ::
  "real list option \<Rightarrow> real list option \<Rightarrow> real \<Rightarrow> nat \<Rightarrow> (real list \<times> real list option) option" where
  \<comment> \<open>\<open>if (!points || points.length === 0) return null\<close>: nothing is rendered\<close>
  "SimplifiedPointCloud points colors density maxPoints =
     (case points of
        None \<Rightarrow> None
      | Some ps \<Rightarrow> if ps = [] then None else Some (sample ps colors density maxPoints))"

definition sampledCount :: "real list \<times> real list option \<Rightarrow> nat" where
  \<comment> \<open>\<open>count={sampledPoints.length / 3}\<close>, the number of points handed to the renderer\<close>
  "sampledCount out = length (fst out) div 3"

text \<open>
  The invariant of the first loop: the sampled arrays grow by whole points, and the
  color array either follows the point array or stays empty.
\<close>

definition sampler_inv :: "real list \<Rightarrow> real list option \<Rightarrow> sampler_state \<Rightarrow> bool" where
  "sampler_inv points colors st =
     (3 dvd length (sampledPointsArray st) \<and>
      (if colors_recorded points colors
       then length (sampledColorsArray st) = length (sampledPointsArray st)
       else sampledColorsArray st = []))"

text \<open>
  Point \<open>i\<close> is kept when iteration \<open>i\<close> of the first loop reaches the \<open>push\<close>: the
  point is complete and the test of the \<open>if\<close> holds in the state the loop has reached.
\<close>

definition point_at :: "real list \<Rightarrow> nat \<Rightarrow> vec3" where
  "point_at a i = triple_at a (i * 3)"

definition keeps_point :: "real list \<Rightarrow> real list option \<Rightarrow> stride \<Rightarrow> nat \<Rightarrow> bool" where
  "keeps_point points colors interval i =
     (i * 3 + 2 < length points
      \<and> keep_test points colors interval i (state_before points colors interval i))"






section \<open>Voxel outline extraction (PointCloudOutlines)\<close>

text \<open>
  A voxel of the source is \<open>{count, x, y, z}\<close>; the three coordinates of its representative
  point are kept as one vector \<open>pos\<close>. The hash table \<open>voxelGrid\<close> is keyed by the string
  \<open>"vx,vy,vz"\<close> of three integers, modelled by the triple itself; since no key looks like
  an array index, \<open>Object.keys\<close> enumerates the table in insertion order, and the table is
  the list of its entries in that order.
\<close>

record voxel =
  count :: nat
  pos :: vec3

type_synonym voxel_key = "int \<times> int \<times> int"

type_synonym voxel_grid = "(voxel_key \<times> voxel) list"

definition voxelSize :: real where
  \<comment> \<open>the double written \<open>0.1\<close>\<close>
  "voxelSize = fl (1 / 10)"

definition voxelKey :: "vec3 \<Rightarrow> voxel_key" where
  \<comment> \<open>\<open>Math.floor(points[i] / voxelSize)\<close> for each coordinate\<close>
  "voxelKey p =
     (case p of (px, py, pz) \<Rightarrow>
        (\<lfloor>fl (px / voxelSize)\<rfloor>, \<lfloor>fl (py / voxelSize)\<rfloor>, \<lfloor>fl (pz / voxelSize)\<rfloor>))"

definition bump_count :: "voxel_key \<Rightarrow> voxel_grid \<Rightarrow> voxel_grid" where
  \<comment> \<open>\<open>voxelGrid[voxelKey].count++\<close>\<close>
  "bump_count k g = map (\<lambda>(k', v). if k' = k then (k', v\<lparr>count := count v + 1\<rparr>) else (k', v)) g"

definition add_point :: "vec3 \<Rightarrow> voxel_grid \<Rightarrow> voxel_grid" where
  "add_point p g =
     (let k = voxelKey p;
          g1 = (if map_of g k = None then g @ [(k, \<lparr>count = 0, pos = p\<rparr>)] else g)
      in bump_count k g1)"

fun voxelize :: "real list \<Rightarrow> voxel_grid \<Rightarrow> voxel_grid" where
  \<comment> \<open>\<open>for (i = 0; i < points.length; i += 3) if (i + 2 < points.length) ...\<close>: the
      flat array is consumed three numbers at a time, a shorter rest is skipped\<close>
  "voxelize (px # py # pz # rest) g = voxelize rest (add_point (px, py, pz) g)"
| "voxelize rest g = g"

definition directions :: "voxel_key list" where
  "directions = [(1, 0, 0), (-1, 0, 0), (0, 1, 0), (0, -1, 0), (0, 0, 1), (0, 0, -1)]"

definition neighborKey :: "voxel_key \<Rightarrow> voxel_key \<Rightarrow> voxel_key" where
  "neighborKey k d =
     (case k of (vx, vy, vz) \<Rightarrow> case d of (dx, dy, dz) \<Rightarrow> (vx + dx, vy + dy, vz + dz))"

definition emptyNeighbors :: "voxel_grid \<Rightarrow> voxel_key \<Rightarrow> nat" where
  "emptyNeighbors g k = length (filter (\<lambda>d. map_of g (neighborKey k d) = None) directions)"

definition edgeVoxels :: "voxel_grid \<Rightarrow> voxel list" where
  "edgeVoxels g = map snd (filter (\<lambda>(k, v). 0 < emptyNeighbors g k) g)"

definition edgeSampleCount :: "nat \<Rightarrow> nat" where
  \<comment> \<open>\<open>Math.min(edgeVoxels.length, 5000)\<close>\<close>
  "edgeSampleCount n = min n 5000"

definition samplingStep :: "nat \<Rightarrow> nat" where
  \<comment> \<open>\<open>Math.max(1, Math.floor(edgeVoxels.length / edgeSampleCount))\<close>; with no edge
      voxel the quotient is \<open>NaN\<close> and the loop below does not run at all\<close>
  "samplingStep n = max 1 (n div edgeSampleCount n)"

text \<open>
  \<open>for (i = 0; i < edgeVoxels.length; i += samplingStep) if (i < edgeVoxels.length)
  sampledEdges.push(edgeVoxels[i])\<close>. The step is at least 1 by \<open>samplingStep\<close>; the test
  \<open>0 < step\<close> serves the termination proof only.
\<close>

function sample_loop :: "'a list \<Rightarrow> nat \<Rightarrow> nat \<Rightarrow> 'a list \<Rightarrow> 'a list" where
  "sample_loop ev step i acc =
     (if i < length ev
      then (if 0 < step then sample_loop ev step (i + step) (acc @ [ev ! i]) else acc @ [ev ! i])
      else acc)"
  by pat_completeness auto
termination
  by (relation "measure (\<lambda>(ev, step, i, acc). length ev - i)") auto

declare sample_loop.simps [simp del]

definition sampledEdges :: "voxel list \<Rightarrow> voxel list" where
  "sampledEdges ev = sample_loop ev (samplingStep (length ev)) 0 []"

text \<open>
  The table \<open>processed\<close> is keyed by the three coordinates printed with \<open>toFixed(3)\<close>.
  \<open>toFixed\<close> prints the sign of a negative number and then the exact value of the
  magnitude rounded to thousandths, ties upwards; the printed string is modelled by the
  pair of the sign and the number of thousandths.
\<close>

type_synonym fixed3 = "bool \<times> int"

definition toFixed3 :: "real \<Rightarrow> fixed3" where
  "toFixed3 v = (v < 0, \<lfloor>\<bar>v\<bar> * 1000 + 1 / 2\<rfloor>)"

definition fixedKey :: "vec3 \<Rightarrow> fixed3 \<times> fixed3 \<times> fixed3" where
  "fixedKey p = (case p of (px, py, pz) \<Rightarrow> (toFixed3 px, toFixed3 py, toFixed3 pz))"

definition posKey :: "voxel \<Rightarrow> fixed3 \<times> fixed3 \<times> fixed3" where
  \<comment> \<open>the key of a voxel in \<open>processed\<close>, printed from its \<open>x\<close>, \<open>y\<close> and \<open>z\<close>\<close>
  "posKey v = fixedKey (pos v)"

definition distThreshold :: real where
  \<comment> \<open>\<open>voxelSize * voxelSize * 4\<close> in doubles\<close>
  "distThreshold = fl (fl (voxelSize * voxelSize) * 4)"

text \<open>
  The inner loop keeps \<open>nearestIdx\<close> and \<open>minDist\<close>, which start as \<open>-1\<close> and
  \<open>Infinity\<close> and are only assigned together: \<open>None\<close> is the initial pair.
\<close>

definition nearest_step ::
  "voxel list \<Rightarrow> (fixed3 \<times> fixed3 \<times> fixed3 \<Rightarrow> bool) \<Rightarrow> nat \<Rightarrow> nat \<Rightarrow> (nat \<times> real) option
     \<Rightarrow> (nat \<times> real) option" where
  "nearest_step es processed i j best =
     (if i = j then best
      else if processed (posKey (es ! j)) then best
      else (let dist = js_sqdist (pos (es ! i)) (pos (es ! j)) in
            if (case best of None \<Rightarrow> True | Some (nearestIdx, minDist) \<Rightarrow> dist < minDist)
               \<and> dist < distThreshold
            then Some (j, dist)
            else best))"

definition find_nearest ::
  "voxel list \<Rightarrow> (fixed3 \<times> fixed3 \<times> fixed3 \<Rightarrow> bool) \<Rightarrow> nat \<Rightarrow> (nat \<times> real) option" where
  "find_nearest es processed i = fold (nearest_step es processed i) [0..<length es] None"

record outline_state =
  vertices :: "real list"
  processed :: "fixed3 \<times> fixed3 \<times> fixed3 \<Rightarrow> bool"

definition outline_init :: outline_state where
  "outline_init = \<lparr>vertices = [], processed = (\<lambda>k. False)\<rparr>"

definition outline_step :: "voxel list \<Rightarrow> nat \<Rightarrow> outline_state \<Rightarrow> outline_state" where
  \<comment> \<open>one iteration of the outer loop over \<open>sampledEdges\<close>\<close>
  "outline_step es i st =
     (let current = es ! i; key = posKey current in
      if processed st key then st
      else (let st1 = st\<lparr>processed := (processed st)(key := True)\<rparr> in
            case find_nearest es (processed st1) i of
              None \<Rightarrow> st1
            | Some (nearestIdx, minDist) \<Rightarrow>
                (let nearest = es ! nearestIdx in
                 st1\<lparr>vertices := vertices st1 @ flat (pos current) @ flat (pos nearest),
                     processed := (processed st1)(posKey nearest := True)\<rparr>)))"

definition connect_edges :: "voxel list \<Rightarrow> outline_state" where
  "connect_edges es = fold (outline_step es) [0..<length es] outline_init"

definition outline_samples :: "real list \<Rightarrow> voxel list" where
  \<comment> \<open>the sampled edge voxels of a flat point array\<close>
  "outline_samples points = sampledEdges (edgeVoxels (voxelize points []))"

definition outline_vertices :: "real list \<Rightarrow> real list" where
  \<comment> \<open>the body of \<open>useMemo\<close>: the position attribute of the line geometry\<close>
  "outline_vertices points = vertices (connect_edges (outline_samples points))"

fun segments_of :: "real list \<Rightarrow> (vec3 \<times> vec3) list" where
  \<comment> \<open>how \<open>lineSegments\<close> reads the position attribute: two vertices for each segment\<close>
  "segments_of (ax # ay # az # bx # by # bz # rest) = ((ax, ay, az), (bx, by, bz)) # segments_of rest"
| "segments_of rest = []"

definition endpoints :: "(vec3 \<times> vec3) list \<Rightarrow> vec3 list" where
  "endpoints segs = concat (map (\<lambda>(a, b). [a, b]) segs)"

text \<open>
  The spec's words for the distance test of a segment: the squared Euclidean distance and
  the cell size in exact arithmetic, and the squared distance as doubles compute it, every
  difference, product and sum rounded.
\<close>

definition sqdist :: "vec3 \<Rightarrow> vec3 \<Rightarrow> real" where
  \<comment> \<open>the squared Euclidean distance\<close>
  "sqdist a b =
     (case a of (ax, ay, az) \<Rightarrow> case b of (bx, by, bz) \<Rightarrow>
        (ax - bx) ^ 2 + (ay - by) ^ 2 + (az - bz) ^ 2)"

definition cellSize :: real where
  "cellSize = 1 / 10"

definition double_sqdist :: "vec3 \<Rightarrow> vec3 \<Rightarrow> real" where
  "double_sqdist a b =
     (case a of (ax, ay, az) \<Rightarrow> case b of (bx, by, bz) \<Rightarrow>
        fl (fl (fl (fl (ax - bx) * fl (ax - bx)) + fl (fl (ay - by) * fl (ay - by)))
            + fl (fl (az - bz) * fl (az - bz))))"

text \<open>
  For the proofs: the segments pushed so far as pairs of indices into \<open>sampledEdges\<close>,
  the keys of their end points, and the invariant of the stitching loop.
\<close>

definition seg_keys :: "voxel list \<Rightarrow> (nat \<times> nat) list \<Rightarrow> (fixed3 \<times> fixed3 \<times> fixed3) list" where
  "seg_keys es segs = map (\<lambda>n. posKey (es ! n)) (concat (map (\<lambda>(i, j). [i, j]) segs))"

definition seg_vertices :: "voxel list \<Rightarrow> (nat \<times> nat) list \<Rightarrow> real list" where
  "seg_vertices es segs = concat (map (\<lambda>(i, j). flat (pos (es ! i)) @ flat (pos (es ! j))) segs)"

definition outline_inv :: "voxel list \<Rightarrow> (nat \<times> nat) list \<Rightarrow> outline_state \<Rightarrow> bool" where
  "outline_inv es segs st =
     (vertices st = seg_vertices es segs
      \<and> (\<forall>(i, j) \<in> set segs. i < length es \<and> j < length es
            \<and> js_sqdist (pos (es ! i)) (pos (es ! j)) < distThreshold)
      \<and> distinct (seg_keys es segs)
      \<and> (\<forall>k \<in> set (seg_keys es segs). processed st k))"

text \<open>
  The invariant of the grid (every key is the cell of its representative point), and two
  test inputs. The first is the cloud of the origin and of the point whose coordinates are
  the doubles written \<open>0.12563859402236977\<close>, \<open>0.12972740612399422\<close> and
  \<open>0.0859403501995566\<close>. The second is the test input of the sampling cap: \<open>n\<close> points
  on a line, one unit apart, with the cell of each point along the line and the grid they
  produce.
\<close>

definition grid_inv :: "voxel_grid \<Rightarrow> bool" where
  "grid_inv g = (distinct (map fst g) \<and> (\<forall>(k, v) \<in> set g. k = voxelKey (pos v)))"

definition near_point :: vec3 where
  "near_point = (1131651850444995 / 9007199254740992, 4673922383038091 / 36028797018963968,
                 6192654866157009 / 72057594037927936)"

definition near_pair :: "real list" where
  "near_pair = [0, 0, 0, 1131651850444995 / 9007199254740992,
                4673922383038091 / 36028797018963968, 6192654866157009 / 72057594037927936]"

definition line_cloud :: "nat \<Rightarrow> real list" where
  "line_cloud n = concat (map (\<lambda>k. [real k, 0, 0]) [0..<n])"

definition line_key :: "nat \<Rightarrow> int" where
  "line_key k = \<lfloor>fl (real k / voxelSize)\<rfloor>"

definition line_grid :: "nat \<Rightarrow> voxel_grid" where
  "line_grid n = map (\<lambda>k. ((line_key k, 0, 0), \<lparr>count = 1, pos = (real k, 0, 0)\<rparr>)) [0..<n]"

section \<open>Camera/person relations and the recommended camera (SceneViewerTest)\<close>

text \<open>
  The vector operations are those of the three.js library, whose code is not part of the
  repository. Modelled from the spec: \<open>distanceTo\<close> is the Euclidean distance
  (\<open>euclid\<close> above), \<open>sub\<close> the componentwise difference, \<open>dot\<close> the inner product,
  \<open>normalize\<close> the division by the length (a zero vector stays as it is).
  The camera matrices are not modelled: \<open>project\<close> (the projection of a point to
  normalized device coordinates by a camera) and \<open>containsPoint\<close> (the frustum test of
  the camera built from \<open>fov\<close>, \<open>aspectRatio\<close>, \<open>near\<close>, \<open>far\<close>, \<open>position\<close> and
  \<open>direction\<close>) are parameters of the model.
\<close>

definition vsub :: "vec3 \<Rightarrow> vec3 \<Rightarrow> vec3" where
  "vsub a b = (case a of (ax, ay, az) \<Rightarrow> case b of (bx, by, bz) \<Rightarrow> (ax - bx, ay - by, az - bz))"

definition vdot :: "vec3 \<Rightarrow> vec3 \<Rightarrow> real" where
  "vdot a b = (case a of (ax, ay, az) \<Rightarrow> case b of (bx, by, bz) \<Rightarrow> ax * bx + ay * by + az * bz)"

definition vlength :: "vec3 \<Rightarrow> real" where
  "vlength a = sqrt (vdot a a)"

definition normalize :: "vec3 \<Rightarrow> vec3" where
  "normalize a =
     (let l = (if vlength a = 0 then 1 else vlength a) in
      case a of (ax, ay, az) \<Rightarrow> (ax / l, ay / l, az / l))"

record camera =
  position :: vec3
  direction :: vec3
  fov :: real
  aspectRatio :: real
  near :: real
  far :: real

record person =
  person_id :: string
  person_position :: vec3
  person_direction :: vec3

datatype shot = CloseUp | MediumShot | WideShot

record relation =
  isVisible :: bool
  distance :: real
  centerOffset :: real
  angleScore :: real
  qualityScore :: real
  shotType :: shot

definition optimalDistance :: real where
  "optimalDistance = 5"

definition camera_person_relation ::
  "(camera \<Rightarrow> vec3 \<Rightarrow> vec3) \<Rightarrow> (camera \<Rightarrow> vec3 \<Rightarrow> bool) \<Rightarrow> camera \<Rightarrow> person \<Rightarrow> relation" where
  \<comment> \<open>the body of the loop over the cameras in \<open>calculateCameraPersonRelations\<close>\<close>
  "camera_person_relation project containsPoint cam p =
     (let personPosition = person_position p;
          isVisible = containsPoint cam personPosition;
          distance = euclid (position cam) personPosition;
          personPosInCamera = project cam personPosition;
          centerOffset = (case personPosInCamera of (nx, ny, nz) \<Rightarrow> sqrt (nx ^ 2 + ny ^ 2));
          camToPersonDir = normalize (vsub personPosition (position cam));
          personDir = person_direction p;
          angleScore = vdot personDir camToPersonDir * (1 / 2) + 1 / 2;
          distanceScore = 1 - min 1 (\<bar>distance - optimalDistance\<bar> / optimalDistance);
          centerScore = 1 - min 1 centerOffset;
          qualityScore = distanceScore * (4 / 10) + centerScore * (3 / 10) + angleScore * (3 / 10);
          shotType = (if distance < 3 then CloseUp else if distance < 7 then MediumShot else WideShot)
      in \<lparr>isVisible = isVisible, distance = distance, centerOffset = centerOffset,
          angleScore = angleScore, qualityScore = qualityScore, shotType = shotType\<rparr>)"

text \<open>
  An object used as a table is the list of its entries in the order \<open>Object.keys\<close> and
  \<open>Object.entries\<close> enumerate them. \<open>personRelations\<close> receives one entry for each key of
  \<open>cameras\<close>, in that order.
\<close>

type_synonym person_relations = "(string \<times> relation) list"

definition personRelations ::
  "(camera \<Rightarrow> vec3 \<Rightarrow> vec3) \<Rightarrow> (camera \<Rightarrow> vec3 \<Rightarrow> bool) \<Rightarrow> (string \<times> camera) list \<Rightarrow> person
     \<Rightarrow> person_relations" where
  "personRelations project containsPoint cameras p =
     map (\<lambda>(cameraId, cam). (cameraId, camera_person_relation project containsPoint cam p)) cameras"

definition visibleCameras :: "person_relations \<Rightarrow> person_relations" where
  \<comment> \<open>\<open>Object.entries(personRelations).filter(...).sort((a, b) => b[1].qualityScore -
      a[1].qualityScore)\<close>; the sort is stable\<close>
  "visibleCameras prs =
     sort_key (\<lambda>e. - qualityScore (snd e)) (filter (\<lambda>e. isVisible (snd e)) prs)"

definition updateRecommendedCamera ::
  "(string \<times> person_relations) list \<Rightarrow> string option \<Rightarrow> string option" where
  \<comment> \<open>the state \<open>recommendedCamera\<close> (initially \<open>null\<close>) before and after the call; both
      early returns leave it as it was\<close>
  "updateRecommendedCamera relations recommendedCamera =
     (case relations of
        [] \<Rightarrow> recommendedCamera
      | (personId, prs) # others \<Rightarrow>
          (case visibleCameras prs of
             [] \<Rightarrow> recommendedCamera
           | (cameraId, r) # rest \<Rightarrow> Some cameraId))"

text \<open>The spec's words for the three scores and their weighted sum.\<close>

definition spec_distanceScore :: "real \<Rightarrow> real" where
  "spec_distanceScore d = 1 - min 1 (\<bar>d - 5\<bar> / 5)"

definition spec_centerScore :: "real \<Rightarrow> real" where
  "spec_centerScore offset = 1 - min 1 offset"

definition spec_qualityScore :: "real \<Rightarrow> real \<Rightarrow> real \<Rightarrow> real" where
  "spec_qualityScore distanceS centerS angleS = distanceS * 0.4 + centerS * 0.3 + angleS * 0.3"

text \<open>Two relation entries used as test inputs: a camera that sees the person, and one that does not.\<close>

definition seen :: relation where
  "seen = \<lparr>isVisible = True, distance = 5, centerOffset = 0, angleScore = 1, qualityScore = 1,
           shotType = MediumShot\<rparr>"

definition unseen :: relation where
  "unseen = \<lparr>isVisible = False, distance = 5, centerOffset = 2, angleScore = 1, qualityScore = 7 / 10,
           shotType = MediumShot\<rparr>"

section \<open>Reconnection of the tracking service (TrackingService)\<close>

text \<open>
  The fields of the service that the connection logic reads and writes, and two logs: the
  delays passed to \<open>setTimeout\<close> and the names passed to \<open>_triggerEvent\<close>, both in the
  order of the calls. \<open>socket\<close> tells whether \<open>this.socket\<close> is set.
\<close>

datatype event = Connect | Disconnect | Error | Cameras | Persons

datatype message = CamerasInfo | TrackingData | Unrecognized | Unparsable

record service =
  socket :: bool
  connected' :: bool
  retryCount :: nat
  maxRetries :: nat
  retryDelay :: real
  timers :: "real list"
  emitted :: "event list"

definition new_service :: service where
  \<comment> \<open>the constructor\<close>
  "new_service =
     \<lparr>socket = False, connected' = False, retryCount = 0, maxRetries = 5, retryDelay = 2000,
      timers = [], emitted = []\<rparr>"

definition triggerEvent :: "event \<Rightarrow> service \<Rightarrow> service" where
  "triggerEvent e s = s\<lparr>emitted := emitted s @ [e]\<rparr>"

definition attemptReconnect :: "service \<Rightarrow> service" where
  "attemptReconnect s =
     (if maxRetries s \<le> retryCount s then s
      else (let s1 = s\<lparr>retryCount := retryCount s + 1\<rparr>;
                delay = retryDelay s1 * (3 / 2) ^ (retryCount s1 - 1)
            in s1\<lparr>timers := timers s1 @ [delay]\<rparr>))"

definition connect :: "bool \<Rightarrow> service \<Rightarrow> service" where
  \<comment> \<open>\<open>connect()\<close>, called by the application or by a reconnection timer; the flag tells
      whether \<open>new WebSocket\<close> throws\<close>
  "connect throws s =
     (if socket s \<and> connected' s then s
      else if throws then attemptReconnect (triggerEvent Error s)
      else s\<lparr>socket := True\<rparr>)"

definition onopen :: "service \<Rightarrow> service" where
  "onopen s = triggerEvent Connect (s\<lparr>connected' := True, retryCount := 0\<rparr>)"

definition onclose :: "service \<Rightarrow> service" where
  "onclose s = attemptReconnect (triggerEvent Disconnect (s\<lparr>connected' := False\<rparr>))"

definition onerror :: "service \<Rightarrow> service" where
  "onerror s = triggerEvent Error s"

definition onmessage :: "message \<Rightarrow> service \<Rightarrow> service" where
  \<comment> \<open>\<open>JSON.parse\<close> and \<open>_handleMessage\<close>: a message that cannot be read raises
      \<open>error\<close>, one of neither kind raises nothing\<close>
  "onmessage m s =
     (case m of
        CamerasInfo \<Rightarrow> triggerEvent Cameras s
      | TrackingData \<Rightarrow> triggerEvent Persons s
      | Unrecognized \<Rightarrow> s
      | Unparsable \<Rightarrow> triggerEvent Error s)"

definition disconnect :: "service \<Rightarrow> service" where
  \<comment> \<open>\<open>socket.close()\<close> makes the socket report its close later, as an \<open>OnClose\<close>\<close>
  "disconnect s =
     (if socket s \<and> connected' s then s\<lparr>socket := False, connected' := False\<rparr> else s)"

text \<open>
  What can happen to the service: a call of \<open>connect\<close> or \<open>disconnect\<close>, and the
  callbacks of any socket it has created. A run is a sequence of such actions.
\<close>

datatype action = DoConnect bool | DoDisconnect | OnOpen | OnClose | OnError | OnMessage message

fun service_step :: "action \<Rightarrow> service \<Rightarrow> service" where
  "service_step (DoConnect throws) s = connect throws s"
| "service_step DoDisconnect s = disconnect s"
| "service_step OnOpen s = onopen s"
| "service_step OnClose s = onclose s"
| "service_step OnError s = onerror s"
| "service_step (OnMessage m) s = onmessage m s"

definition service_run :: "action list \<Rightarrow> service \<Rightarrow> service" where
  "service_run acts s = fold service_step acts s"

definition backoff :: "real \<Rightarrow> nat \<Rightarrow> real" where
  \<comment> \<open>the delay of the \<open>k\<close>-th retry, \<open>k = 1, 2, ...\<close>\<close>
  "backoff base k = base * (3 / 2) ^ (k - 1)"

text \<open>
  For the proofs: \<open>follows s0 s\<close> relates a state to a later one reached without a
  successful open. \<open>five_failures\<close> is the run in which the first connection and four
  reconnections all end in a close.
\<close>

definition follows :: "service \<Rightarrow> service \<Rightarrow> bool" where
  "follows s0 s =
     (maxRetries s = maxRetries s0 \<and> retryDelay s = retryDelay s0
      \<and> retryCount s0 \<le> retryCount s \<and> retryCount s \<le> maxRetries s0
      \<and> timers s = timers s0 @ map (backoff (retryDelay s0)) [Suc (retryCount s0)..<Suc (retryCount s)])"

definition five_failures :: "action list" where
  "five_failures =
     [DoConnect False, OnClose, DoConnect False, OnClose, DoConnect False, OnClose,
      DoConnect False, OnClose, DoConnect False, OnClose]"

section \<open>Properties of the rounding\<close>

lemma round_even_near: "\<bar>of_int (round_even r) - r\<bar> \<le> 1 / 2"
proof -
  have "of_int \<lfloor>r\<rfloor> \<le> r" "r < of_int \<lfloor>r\<rfloor> + 1" by linarith+
  then show ?thesis by (auto simp: round_even_def Let_def)
qed

lemma round_even_unique: "\<bar>r - of_int z\<bar> < 1 / 2 \<Longrightarrow> round_even r = z"
proof -
  assume a: "\<bar>r - of_int z\<bar> < 1 / 2"
  have n: "\<bar>of_int (round_even r) - r\<bar> \<le> 1 / 2" by (rule round_even_near)
  from a n have "\<bar>of_int (round_even r) - (of_int z :: real)\<bar> < 1" by linarith
  then have "\<bar>real_of_int (round_even r - z)\<bar> < 1" by simp
  then have "\<bar>round_even r - z\<bar> < 1" by linarith
  then show ?thesis by simp
qed

lemma two_powi_pos: "0 < (2::real) powi k"
  by (simp add: zero_less_power_int)

lemma two_powr_int: "(2::real) powr real_of_int k = 2 powi k"
  by (rule powr_real_of_int') simp_all

lemma floor_log2_iff:
  assumes "0 < x"
  shows "(\<lfloor>log 2 x\<rfloor> = k) = (2 powi k \<le> x \<and> x < 2 powi (k + 1))"
proof -
  have "(\<lfloor>log 2 x\<rfloor> = k) = (2 powr real_of_int k \<le> x \<and> x < 2 powr real_of_int (k + 1))"
    by (rule floor_log_eq_powr_iff) (use assms in simp_all)
  then show ?thesis unfolding two_powr_int .
qed

lemma floor_log2_eq:
  assumes "2 powi e \<le> \<bar>x\<bar>" "\<bar>x\<bar> < 2 powi (e + 1)"
  shows "\<lfloor>log 2 \<bar>x\<bar>\<rfloor> = e"
proof -
  have pos: "0 < \<bar>x\<bar>" using assms(1) two_powi_pos[of e] by linarith
  show ?thesis using assms by (simp only: floor_log2_iff[OF pos])
qed

lemma double_exponent_eq:
  assumes "- 1022 \<le> e" "2 powi e \<le> \<bar>x\<bar>" "\<bar>x\<bar> < 2 powi (e + 1)"
  shows "double_exponent x = e"
  using floor_log2_eq[OF assms(2,3)] assms(1) by (simp add: double_exponent_def)

lemma fl_zero [simp]: "fl 0 = 0"
  by (simp add: fl_def)

lemma fl_nearest:
  assumes e: "- 1022 \<le> e" "2 powi e \<le> \<bar>x\<bar>" "\<bar>x\<bar> < 2 powi (e + 1)"
    and y: "y = of_int z * 2 powi (e - 52)"
    and near: "\<bar>x - y\<bar> < 2 powi (e - 53)"
  shows "fl x = y"
proof -
  have x0: "x \<noteq> 0"
  proof
    assume "x = 0"
    then have "\<bar>x\<bar> = 0" by simp
    with e(2) two_powi_pos[of e] show False by linarith
  qed
  have de: "double_exponent x = e" using e by (rule double_exponent_eq)
  define u :: real where "u = 2 powi (e - 52)"
  have u: "0 < u" by (simp add: u_def two_powi_pos)
  have half: "(2::real) powi (e - 53) = u / 2"
    using power_int_diff[of "2::real" "e - 52" 1] by (simp add: u_def)
  have "\<bar>x / u - of_int z\<bar> = \<bar>x - y\<bar> / u"
    using u by (simp add: y u_def[symmetric] field_simps abs_mult[symmetric] abs_divide)
  also have "\<dots> < (u / 2) / u" using near u by (simp add: half divide_strict_right_mono)
  also have "\<dots> = 1 / 2" using u by simp
  finally have "round_even (x / u) = z" by (rule round_even_unique)
  then show ?thesis using x0 by (simp add: fl_def de u_def y)
qed

lemma round_even_tie:
  assumes "\<bar>r - of_int z\<bar> \<le> 1 / 2" "even z"
  shows "round_even r = z"
proof (cases "\<bar>r - of_int z\<bar> < 1 / 2")
  case True
  then show ?thesis by (rule round_even_unique)
next
  case False
  with assms(1) have "\<bar>r - of_int z\<bar> = 1 / 2" by linarith
  then consider "r = of_int z + 1 / 2" | "r = of_int z - 1 / 2" by linarith
  then show ?thesis
  proof cases
    case 1
    then have "\<lfloor>r\<rfloor> = z" by linarith
    then show ?thesis using 1 assms(2) by (simp add: round_even_def Let_def)
  next
    case 2
    then have f: "\<lfloor>r\<rfloor> = z - 1" by linarith
    have "odd (z - 1)" using assms(2) by simp
    then show ?thesis using 2 f by (simp add: round_even_def Let_def)
  qed
qed

lemma fl_nearest_even:
  assumes e: "- 1022 \<le> e" "2 powi e \<le> \<bar>x\<bar>" "\<bar>x\<bar> < 2 powi (e + 1)"
    and y: "y = of_int z * 2 powi (e - 52)"
    and near: "\<bar>x - y\<bar> \<le> 2 powi (e - 53)"
    and z: "even z"
  shows "fl x = y"
proof -
  have x0: "x \<noteq> 0"
  proof
    assume "x = 0"
    then have "\<bar>x\<bar> = 0" by simp
    with e(2) two_powi_pos[of e] show False by linarith
  qed
  have de: "double_exponent x = e" using e by (rule double_exponent_eq)
  define u :: real where "u = 2 powi (e - 52)"
  have u: "0 < u" by (simp add: u_def two_powi_pos)
  have half: "(2::real) powi (e - 53) = u / 2"
    using power_int_diff[of "2::real" "e - 52" 1] by (simp add: u_def)
  have "\<bar>x / u - of_int z\<bar> = \<bar>x - y\<bar> / u"
    using u by (simp add: y u_def[symmetric] field_simps abs_mult[symmetric] abs_divide)
  also have "\<dots> \<le> (u / 2) / u" using near u by (simp add: half divide_right_mono)
  also have "\<dots> = 1 / 2" using u by simp
  finally have "round_even (x / u) = z" using z by (rule round_even_tie)
  then show ?thesis using x0 by (simp add: fl_def de u_def y)
qed

lemma fl_error_aux:
  assumes "x \<noteq> 0"
  shows "\<bar>fl x - x\<bar> \<le> 2 powi (double_exponent x - 53)"
proof -
  define u :: real where "u = 2 powi (double_exponent x - 52)"
  have u: "0 < u" by (simp add: u_def two_powi_pos)
  have half: "(2::real) powi (double_exponent x - 53) = u / 2"
    using power_int_diff[of "2::real" "double_exponent x - 52" 1] by (simp add: u_def)
  have "fl x - x = (of_int (round_even (x / u)) - x / u) * u"
    using assms u by (simp add: fl_def u_def[symmetric] field_simps)
  then have "\<bar>fl x - x\<bar> = \<bar>of_int (round_even (x / u)) - x / u\<bar> * u"
    using u by (simp add: abs_mult)
  also have "\<dots> \<le> (1 / 2) * u"
    using round_even_near[of "x / u"] u by (simp add: mult_right_mono)
  finally show ?thesis by (simp add: half)
qed

lemma fl_error_normal:
  assumes "2 powi (- 1022) \<le> \<bar>x\<bar>"
  shows "\<bar>fl x - x\<bar> \<le> \<bar>x\<bar> * 2 powi (- 53)"
proof -
  have x0: "x \<noteq> 0"
  proof
    assume "x = 0"
    then have "\<bar>x\<bar> = 0" by simp
    with assms two_powi_pos[of "- 1022"] show False by linarith
  qed
  then have pos: "0 < \<bar>x\<bar>" by simp
  define e where "e = \<lfloor>log 2 \<bar>x\<bar>\<rfloor>"
  have b: "2 powi e \<le> \<bar>x\<bar>" "\<bar>x\<bar> < 2 powi (e + 1)"
    using floor_log2_iff[OF pos, of e] by (simp_all add: e_def)
  have "- 1022 \<le> e"
  proof (rule ccontr)
    assume "\<not> - 1022 \<le> e"
    then have "e + 1 \<le> - 1022" by simp
    then have "(2::real) powi (e + 1) \<le> 2 powi (- 1022)" by (rule power_int_increasing) simp
    with b(2) assms show False by linarith
  qed
  then have de: "double_exponent x = e" by (simp add: double_exponent_def e_def)
  have "(2::real) powi (e - 53) = 2 powi e * 2 powi (- 53)"
    using power_int_add[of "2::real" e "- 53"] by simp
  also have "\<dots> \<le> \<bar>x\<bar> * 2 powi (- 53)"
    using b(1) by (simp add: mult_right_mono)
  finally show ?thesis using fl_error_aux[OF x0] by (simp add: de)
qed

lemma fl_error: "\<bar>fl x - x\<bar> \<le> \<bar>x\<bar> * 2 powi (- 53) + 2 powi (- 1075)"
proof (cases "2 powi (- 1022) \<le> \<bar>x\<bar>")
  case True
  from fl_error_normal[OF True] two_powi_pos[of "- 1075"] show ?thesis
    by linarith
next
  case False
  show ?thesis
  proof (cases "x = 0")
    case True
    then show ?thesis by simp
  next
    case x0: False
    then have pos: "0 < \<bar>x\<bar>" by simp
    have "\<lfloor>log 2 \<bar>x\<bar>\<rfloor> < - 1022"
    proof (rule ccontr)
      assume "\<not> \<lfloor>log 2 \<bar>x\<bar>\<rfloor> < - 1022"
      then have "- 1022 \<le> \<lfloor>log 2 \<bar>x\<bar>\<rfloor>" by simp
      then have "(2::real) powi (- 1022) \<le> 2 powi \<lfloor>log 2 \<bar>x\<bar>\<rfloor>" by (rule power_int_increasing) simp
      moreover have "2 powi \<lfloor>log 2 \<bar>x\<bar>\<rfloor> \<le> \<bar>x\<bar>"
        using floor_log2_iff[OF pos, of "\<lfloor>log 2 \<bar>x\<bar>\<rfloor>"] by simp
      ultimately show False using False by linarith
    qed
    then have "double_exponent x = - 1022" by (simp add: double_exponent_def)
    with fl_error_aux[OF x0] have "\<bar>fl x - x\<bar> \<le> 2 powi (- 1075)" by simp
    moreover have "0 \<le> \<bar>x\<bar> * 2 powi (- 53)" by simp
    ultimately show ?thesis by linarith
  qed
qed

lemma fl_nonneg: "0 \<le> x \<Longrightarrow> 0 \<le> fl x"
proof -
  assume x: "0 \<le> x"
  have "0 \<le> round_even r" if "0 \<le> r" for r
  proof -
    from that have "0 \<le> \<lfloor>r\<rfloor>" by simp
    then show ?thesis by (auto simp: round_even_def Let_def)
  qed
  moreover have "0 \<le> x / 2 powi (double_exponent x - 52)" using x by simp
  ultimately have "0 \<le> round_even (x / 2 powi (double_exponent x - 52))" by blast
  then show ?thesis by (simp add: fl_def)
qed

text \<open>The doubles written \<open>0.1\<close> and \<open>0.01\<close>, and some numbers that are doubles.\<close>

lemma fl_tenth: "fl (1 / 10) = 3602879701896397 / 36028797018963968"
  by (rule fl_nearest[where e = "- 4" and z = "7205759403792794"]) simp_all




lemma fl_eighth: "fl (1 / 8) = 1 / 8"
  by (rule fl_nearest[where e = "- 3" and z = "4503599627370496"]) simp_all

section \<open>Properties of the sampler\<close>

lemma ceil_ratio_pos: "0 < a \<Longrightarrow> ceil_ratio a m \<noteq> Finite 0"
  by (auto simp: ceil_ratio_def divide_le_0_iff)

lemma base_interval_pos: "base_interval d \<noteq> Finite 0"
  by (auto simp: base_interval_def)

lemma over_cap_pos: "over_cap t (base_interval d) m \<Longrightarrow> 0 < t"
proof -
  assume a: "over_cap t (base_interval d) m"
  then obtain k where k: "base_interval d = Finite k" "real m < t / real k"
    by (cases "base_interval d") (auto simp: over_cap_def)
  have "0 \<le> real m" by simp
  with k have "0 < t / real k" by linarith
  then show "0 < t"
    by (metis divide_less_0_iff not_less_iff_gr_or_eq of_nat_less_0_iff divide_eq_0_iff)
qed

lemma first_interval_pos: "first_interval t d m \<noteq> Finite 0"
proof (cases "over_cap t (base_interval d) m")
  case False
  then show ?thesis by (simp add: first_interval_def base_interval_pos)
next
  case True
  with over_cap_pos[OF True] show ?thesis by (simp add: first_interval_def ceil_ratio_pos)
qed

lemma hits_zero: "s \<noteq> Finite 0 \<Longrightarrow> hits_interval 0 s"
  by (cases s) (auto simp: hits_interval_def)

lemma length_flat [simp]: "length (flat p) = 3"
  by (cases p) (auto simp: flat_def)

lemma sampler_inv_init: "sampler_inv points colors sampler_init"
  by (simp add: sampler_inv_def sampler_init_def)

lemma sampler_inv_push:
  "sampler_inv points colors st \<Longrightarrow> sampler_inv points colors (push_sample points colors idx st)"
  by (simp add: sampler_inv_def push_sample_def Let_def)

lemma sampler_inv_step:
  "sampler_inv points colors st \<Longrightarrow> sampler_inv points colors (sample_step points colors s i st)"
  by (simp add: sample_step_def sampler_inv_push)

lemma state_before_Suc:
  "state_before points colors s (Suc i) =
     sample_step points colors s i (state_before points colors s i)"
  by (simp add: state_before_def)

lemma state_before_0: "state_before points colors s 0 = sampler_init"
  by (simp add: state_before_def)

lemma sampler_inv_state_before: "sampler_inv points colors (state_before points colors s i)"
  by (induction i) (simp_all add: state_before_Suc state_before_0 sampler_inv_step sampler_inv_init)

lemma push_length:
  "length (sampledPointsArray (push_sample points colors idx st)) = length (sampledPointsArray st) + 3"
  by (simp add: push_sample_def Let_def)

lemma step_length_mono:
  "length (sampledPointsArray st) \<le> length (sampledPointsArray (sample_step points colors s i st))"
  by (simp add: sample_step_def push_length)

lemma state_before_length_mono:
  "i \<le> j \<Longrightarrow> length (sampledPointsArray (state_before points colors s i))
       \<le> length (sampledPointsArray (state_before points colors s j))"
proof (induction j)
  case 0 then show ?case by simp
next
  case (Suc j)
  show ?case
  proof (cases "i = Suc j")
    case True then show ?thesis by simp
  next
    case False
    with Suc have "length (sampledPointsArray (state_before points colors s i))
       \<le> length (sampledPointsArray (state_before points colors s j))" by simp
    also have "\<dots> \<le> length (sampledPointsArray (state_before points colors s (Suc j)))"
      by (simp add: state_before_Suc step_length_mono)
    finally show ?thesis .
  qed
qed

lemma first_kept:
  assumes "3 \<le> length points" "s \<noteq> Finite 0"
  shows "length (sampledPointsArray (state_before points colors s (Suc 0))) = 3"
  using assms
  by (simp add: state_before_Suc state_before_0 sample_step_def keep_test_def hits_zero push_length sampler_init_def)

lemma loop_bound_pos: "3 \<le> n \<Longrightarrow> Suc 0 \<le> loop_bound (real n / 3)"
  unfolding loop_bound_def by linarith

lemma first_pass_nonempty:
  assumes "3 \<le> length points" "s \<noteq> Finite 0"
  shows "3 \<le> length (sampledPointsArray (first_pass points colors s))"
  using state_before_length_mono[OF loop_bound_pos[OF assms(1)], of points colors s]
    first_kept[OF assms, of colors]
  by (simp add: first_pass_def)

lemma resample_cond: "3 dvd length sp \<Longrightarrow> (real i < real (length sp) / 3) = (i < length sp div 3)"
proof -
  assume "3 dvd length sp"
  then obtain K where K: "length sp = 3 * K" by (auto simp: dvd_def)
  have "(real i < real (3 * K) / 3) = (i < K)" by simp
  with K show ?thesis by simp
qed

lemma resample_idx: "3 dvd length sp \<Longrightarrow> i < length sp div 3 \<Longrightarrow> i * 3 + 2 < length sp"
proof -
  assume "3 dvd length sp" and i: "i < length sp div 3"
  then obtain K where K: "length sp = 3 * K" by (auto simp: dvd_def)
  with i show ?thesis by simp
qed

lemma resample_stop:
  assumes "3 dvd length sp" "\<not> i < length sp div 3"
  shows "resample_loop sp sc step i acc = acc"
proof -
  have "\<not> real i < real (length sp) / 3" using assms resample_cond[of sp i] by blast
  then show ?thesis by (subst resample_loop.simps) (simp only: if_False)
qed

lemma resample_go:
  assumes "3 dvd length sp" "i < length sp div 3"
  shows "resample_loop sp sc step i acc =
     (case step of
        Infinity \<Rightarrow> (fst acc @ flat (triple_at sp (i * 3)),
                           map_option (\<lambda>fc. fc @ flat (triple_at sc (i * 3))) (snd acc))
      | Finite k \<Rightarrow>
          if 0 < k
          then resample_loop sp sc step (i + k) (fst acc @ flat (triple_at sp (i * 3)),
                           map_option (\<lambda>fc. fc @ flat (triple_at sc (i * 3))) (snd acc))
          else (fst acc @ flat (triple_at sp (i * 3)),
                           map_option (\<lambda>fc. fc @ flat (triple_at sc (i * 3))) (snd acc)))"
proof -
  have c: "real i < real (length sp) / 3" using assms resample_cond[of sp i] by blast
  have d: "i * 3 + 2 < length sp" using assms by (rule resample_idx)
  show ?thesis
    by (subst resample_loop.simps) (simp only: c d if_True resample_body_def)
qed

lemma count_step:
  assumes k: "0 < k" and i: "i < (K::nat)"
  shows "Suc ((K - (i + k) + k - 1) div k) = (K - i + k - 1) div k"
proof -
  obtain e where e: "K - i = Suc e" using i by (metis Suc_diff_Suc)
  have l: "K - (i + k) + k - 1 = (if k \<le> Suc e then e else k - 1)"
    using e k by arith
  have r: "K - i + k - 1 = e + k" using e by arith
  have r2: "(e + k) div k = Suc (e div k)" using k div_add_self2[of k e] by simp
  show ?thesis
  proof (cases "k \<le> Suc e")
    case True
    show ?thesis by (simp only: l r r2 True if_True)
  next
    case False
    then have a: "e div k = 0" by simp
    have b: "(k - 1) div k = 0" using k by simp
    show ?thesis by (simp only: l r r2 False if_False a b)
  qed
qed

lemma resample_length_finite:
  assumes "3 dvd length sp" "0 < k"
  shows "length (fst (resample_loop sp sc (Finite k) i acc)) =
           length (fst acc) + 3 * ((length sp div 3 - i + k - 1) div k)"
  using assms
proof (induction "length sp div 3 - i" arbitrary: i acc rule: less_induct)
  case less
  show ?case
  proof (cases "i < length sp div 3")
    case False
    then have "(length sp div 3 - i + k - 1) div k = 0" using less(3) by simp
    with False less(2) show ?thesis by (simp add: resample_stop)
  next
    case True
    let ?acc' = "(fst acc @ flat (triple_at sp (i * 3)),
                           map_option (\<lambda>fc. fc @ flat (triple_at sc (i * 3))) (snd acc))"
    have "length sp div 3 - (i + k) < length sp div 3 - i" using True less(3) by simp
    from less(1)[OF this less(2) less(3)]
    have ih: "length (fst (resample_loop sp sc (Finite k) (i + k) ?acc')) =
           length (fst ?acc') + 3 * ((length sp div 3 - (i + k) + k - 1) div k)" .
    have "resample_loop sp sc (Finite k) i acc = resample_loop sp sc (Finite k) (i + k) ?acc'"
      using less(3) by (simp add: resample_go[OF less(2) True])
    have "length (fst (resample_loop sp sc (Finite k) i acc)) =
           length (fst acc) + 3 * Suc ((length sp div 3 - (i + k) + k - 1) div k)"
      by (simp only: \<open>resample_loop sp sc (Finite k) i acc = resample_loop sp sc (Finite k) (i + k) ?acc'\<close> ih)
         simp
    then show ?thesis by (simp only: count_step[OF less(3) True])
  qed
qed

lemma resample_length_infinity:
  assumes "3 dvd length sp" "0 < length sp"
  shows "length (fst (resample_loop sp sc Infinity 0 acc)) = length (fst acc) + 3"
proof -
  have "3 \<le> length sp" using assms by (simp add: dvd_imp_le)
  then have "0 < length sp div 3" by (simp add: div_greater_zero_iff)
  from resample_go[OF assms(1) this] show ?thesis by simp
qed

lemma ceil_count_bound:
  assumes "0 < m" "m < K"
  shows "(K + nat \<lceil>real K / real m\<rceil> - 1) div nat \<lceil>real K / real m\<rceil> \<le> m"
    and "0 < (K + nat \<lceil>real K / real m\<rceil> - 1) div nat \<lceil>real K / real m\<rceil>"
    and "0 < nat \<lceil>real K / real m\<rceil>"
proof -
  define r where "r = nat \<lceil>real K / real m\<rceil>"
  have pos: "0 < real K / real m" using assms by simp
  then have c0: "0 < \<lceil>real K / real m\<rceil>" by linarith
  then have rr: "real r = of_int \<lceil>real K / real m\<rceil>" by (simp add: r_def)
  have mpos: "0 < real m" using assms(1) by simp
  have "real K / real m \<le> real r" unfolding rr by (rule le_of_int_ceiling)
  then have "real K \<le> real r * real m" by (simp only: pos_divide_le_eq[OF mpos])
  then have "real K \<le> real (r * m)" by (simp only: of_nat_mult)
  then have km: "K \<le> r * m" by (simp only: of_nat_le_iff)
  have r: "0 < r" using c0 by (simp add: r_def)
  have "K + r - 1 < r * m + r" using km r by arith
  then have "K + r - 1 < Suc m * r" by (simp add: mult.commute)
  then have "(K + r - 1) div r < Suc m" using r by (simp only: div_less_iff_less_mult)
  then have a: "(K + r - 1) div r \<le> m" by simp
  have "r \<le> K + r - 1" using assms by arith
  then have b: "0 < (K + r - 1) div r" using r by (simp add: div_greater_zero_iff)
  from a b r show "(K + nat \<lceil>real K / real m\<rceil> - 1) div nat \<lceil>real K / real m\<rceil> \<le> m"
    and "0 < (K + nat \<lceil>real K / real m\<rceil> - 1) div nat \<lceil>real K / real m\<rceil>"
    and "0 < nat \<lceil>real K / real m\<rceil>"
    unfolding r_def by blast+
qed

lemma first_pass_dvd: "3 dvd length (sampledPointsArray (first_pass points colors s))"
  using sampler_inv_state_before[of points colors s] by (simp add: first_pass_def sampler_inv_def)

lemma real_third: "3 dvd (n::nat) \<Longrightarrow> real n / 3 = real (n div 3)"
  by (auto simp: dvd_def)

text \<open>
  Claim C1, for a cap of at least 1. The sampler returns whole points, at most
  \<open>maxPoints\<close> of them, and at least one when the input holds a complete point.
\<close>

theorem sample_within_cap:
  assumes m: "0 < maxPoints"
  shows "3 dvd length (fst (sample points colors density maxPoints))
       \<and> sampledCount (sample points colors density maxPoints) \<le> maxPoints
       \<and> (3 \<le> length points \<longrightarrow> 0 < sampledCount (sample points colors density maxPoints))"
proof -
  define s where "s = first_interval (real (length points) / 3) density maxPoints"
  define sp where "sp = sampledPointsArray (first_pass points colors s)"
  define sc where "sc = sampledColorsArray (first_pass points colors s)"
  define K where "K = length sp div 3"
  have dvd: "3 dvd length sp" unfolding sp_def by (rule first_pass_dvd)
  have rK: "real (length sp) / 3 = real K" using dvd by (simp add: K_def real_third)
  have spos: "s \<noteq> Finite 0" unfolding s_def by (rule first_interval_pos)
  show ?thesis
  proof (cases "maxPoints < K")
    case False
    then have out: "fst (sample points colors density maxPoints) = sp"
      using rK by (simp add: sample_def Let_def s_def[symmetric] sp_def[symmetric] sc_def[symmetric])
    have "0 < length sp div 3" if "3 \<le> length points"
      using first_pass_nonempty[OF that spos, of colors]
      by (simp add: sp_def div_greater_zero_iff)
    with False dvd show ?thesis
      by (simp add: sampledCount_def out K_def)
  next
    case True
    define r where "r = nat \<lceil>real K / real maxPoints\<rceil>"
    have r: "0 < r" "(K + r - 1) div r \<le> maxPoints" "0 < (K + r - 1) div r"
      using ceil_count_bound[OF m True] by (simp_all add: r_def)
    have cr: "ceil_ratio (real K) maxPoints = Finite r"
      using m by (simp add: ceil_ratio_def r_def)
    have out: "sample points colors density maxPoints =
        resample_loop sp sc (Finite r) 0 ([], if sc \<noteq> [] then Some [] else None)"
      using True rK cr
      by (simp add: sample_def Let_def s_def[symmetric] sp_def[symmetric] sc_def[symmetric])
    have l: "length (fst (sample points colors density maxPoints)) = 3 * ((K + r - 1) div r)"
      unfolding out using resample_length_finite[OF dvd r(1), of sc 0] by (simp add: K_def)
    from r(2,3) show ?thesis
      by (simp add: sampledCount_def l)
  qed
qed

lemma sqrt_gt: "0 \<le> c \<Longrightarrow> (c < sqrt x) = (c * c < x)"
  by (metis abs_of_nonneg real_sqrt_abs2 real_sqrt_less_iff)

lemma first_interval_zero_cap:
  "density \<noteq> 0 \<Longrightarrow> 0 < t \<Longrightarrow> first_interval t density 0 = Infinity"
  by (simp add: first_interval_def base_interval_def over_cap_def ceil_ratio_def
      zero_less_divide_iff)

lemma sample_zero_cap: "sample [0, 0, 0] None (1 / 10) 0 = ([0, 0, 0], None)"
proof -
  have i: "first_interval (real (length [0, 0, 0 :: real]) / 3) (1 / 10) 0 = Infinity"
    by (rule first_interval_zero_cap) simp_all
  have f: "first_pass [0, 0, 0] None Infinity
      = \<lparr>sampledPointsArray = [0, 0, 0], sampledColorsArray = [], lastPoint = Some (0, 0, 0),
          lastColor = None\<rparr>"
    by (simp add: first_pass_def loop_bound_def state_before_def sample_step_def keep_test_def
        hits_interval_def push_sample_def colors_recorded_def sampler_init_def triple_at_def
        flat_def)
  have r: "resample_loop [0, 0, 0] [] Infinity 0 ([], None) = ([0, 0, 0], None)"
    by (subst resample_loop.simps) (simp add: resample_body_def triple_at_def flat_def)
  show ?thesis
    unfolding sample_def Let_def i f by (simp add: ceil_ratio_def r)
qed

text \<open>
  With \<open>maxPoints = 0\<close> both strides are \<open>Infinity\<close> and the first point is still
  returned: the cap is exceeded.
\<close>

theorem sample_zero_cap_exceeded:
  "\<not> sampledCount (sample [0, 0, 0] None (1 / 10) 0) \<le> 0"
  by (simp add: sample_zero_cap sampledCount_def)

theorem sample_within_cap_witness:
  "(0::nat) < 2
   \<and> 3 dvd length (fst (sample [0, 0, 0, 1, 0, 0, 2, 0, 0] None (1 / 2) 2))
   \<and> sampledCount (sample [0, 0, 0, 1, 0, 0, 2, 0, 0] None (1 / 2) 2) \<le> 2
   \<and> 3 \<le> length [0, 0, 0, 1, 0, 0, 2, 0, (0::real)]
   \<and> 0 < sampledCount (sample [0, 0, 0, 1, 0, 0, 2, 0, 0] None (1 / 2) 2)"
  using sample_within_cap [of 2 "[0, 0, 0, 1, 0, 0, 2, 0, 0]" None "1 / 2"] by simp

subsection \<open>The keep rule of the first pass\<close>





lemma push_colors:
  "sampledColorsArray (push_sample points colors idx st) =
     (if colors_recorded points colors then sampledColorsArray st @ flat (triple_at (the colors) idx)
      else sampledColorsArray st)"
  by (simp add: push_sample_def Let_def)

lemma step_keeps:
  "sample_step points colors s i (state_before points colors s i) =
     (if keeps_point points colors s i
      then push_sample points colors (i * 3) (state_before points colors s i)
      else state_before points colors s i)"
  by (simp add: sample_step_def keeps_point_def)




lemma colors_state:
  "sampledColorsArray (state_before points colors s i) =
     (if colors_recorded points colors
      then concat (map (\<lambda>k. flat (point_at (the colors) k)) (filter (keeps_point points colors s) [0..<i]))
      else [])"
  by (induction i) (simp_all add: state_before_0 sampler_init_def state_before_Suc step_keeps
      push_colors point_at_def[symmetric])















text \<open>
  The stride of the double \<open>0.1\<close>: the quotient \<open>1 / 0.1\<close> rounds to the double \<open>10\<close>,
  although the exact quotient of 1 by that double is below 10.
\<close>

lemma fl_inverse_tenth: "fl (36028797018963968 / 3602879701896397) = 10"
  by (rule fl_nearest[where e = "3" and z = "5629499534213120"]) simp_all

lemma base_interval_tenth: "base_interval (fl (1 / 10)) = Finite 10"
  by (simp add: base_interval_def fl_tenth fl_inverse_tenth)

lemma exact_inverse_tenth: "\<lfloor>1 / fl (1 / 10)\<rfloor> = 9"
  by (simp add: fl_tenth)








section \<open>Properties of the outline extraction\<close>

lemma nearest_fold:
  "fold (nearest_step es P i) [0..<m] None = Some (j, d) \<Longrightarrow>
     j < m \<and> j \<noteq> i \<and> \<not> P (posKey (es ! j))
     \<and> d = js_sqdist (pos (es ! i)) (pos (es ! j)) \<and> d < distThreshold"
proof (induction m arbitrary: j d)
  case 0
  then show ?case by simp
next
  case (Suc m)
  let ?best = "fold (nearest_step es P i) [0..<m] None"
  from Suc.prems have st: "nearest_step es P i m ?best = Some (j, d)" by simp
  show ?case
  proof (cases "?best = Some (j, d)")
    case True
    with Suc.IH show ?thesis by auto
  next
    case False
    with st have "j = m \<and> i \<noteq> m \<and> \<not> P (posKey (es ! m))
        \<and> d = js_sqdist (pos (es ! i)) (pos (es ! m)) \<and> d < distThreshold"
      by (auto simp: nearest_step_def Let_def split: if_splits)
    then show ?thesis by auto
  qed
qed

lemma find_nearest_Some:
  "find_nearest es P i = Some (j, d) \<Longrightarrow>
     j < length es \<and> j \<noteq> i \<and> \<not> P (posKey (es ! j))
     \<and> d = js_sqdist (pos (es ! i)) (pos (es ! j)) \<and> d < distThreshold"
  unfolding find_nearest_def by (rule nearest_fold)

lemma seg_keys_snoc: "seg_keys es (segs @ [(i, j)]) = seg_keys es segs @ [posKey (es ! i), posKey (es ! j)]"
  by (simp add: seg_keys_def)

lemma seg_vertices_snoc:
  "seg_vertices es (segs @ [(i, j)]) = seg_vertices es segs @ flat (pos (es ! i)) @ flat (pos (es ! j))"
  by (simp add: seg_vertices_def)

lemma outline_inv_init: "outline_inv es [] outline_init"
  by (simp add: outline_inv_def outline_init_def seg_keys_def seg_vertices_def)

lemma outline_inv_step:
  assumes inv: "outline_inv es segs st" and i: "i < length es"
  shows "\<exists>segs'. outline_inv es segs' (outline_step es i st)"
proof (cases "processed st (posKey (es ! i))")
  case True
  then have "outline_step es i st = st" by (simp add: outline_step_def Let_def)
  with inv show ?thesis by auto
next
  case False
  define st1 where "st1 = st\<lparr>processed := (processed st)(posKey (es ! i) := True)\<rparr>"
  have inv1: "outline_inv es segs st1"
    using inv by (auto simp: outline_inv_def st1_def)
  show ?thesis
  proof (cases "find_nearest es (processed st1) i")
    case None
    with False have "outline_step es i st = st1"
      by (simp add: outline_step_def Let_def st1_def)
    with inv1 show ?thesis by auto
  next
    case (Some a)
    obtain j d where a: "a = (j, d)" by (cases a)
    from find_nearest_Some[OF Some[unfolded a]]
    have j: "j < length es" "\<not> processed st1 (posKey (es ! j))"
       "js_sqdist (pos (es ! i)) (pos (es ! j)) < distThreshold" by auto
    from j(2) have kj: "posKey (es ! j) \<noteq> posKey (es ! i)" "\<not> processed st (posKey (es ! j))"
      by (auto simp: st1_def split: if_splits)
    define st2 where "st2 = st1\<lparr>vertices := vertices st1 @ flat (pos (es ! i)) @ flat (pos (es ! j)),
                     processed := (processed st1)(posKey (es ! j) := True)\<rparr>"
    have out: "outline_step es i st = st2"
      using False Some a by (simp add: outline_step_def Let_def st1_def st2_def)
    have old: "\<forall>k \<in> set (seg_keys es segs). processed st k"
      using inv by (simp add: outline_inv_def)
    have ni: "posKey (es ! i) \<notin> set (seg_keys es segs)" using old False by auto
    have nj: "posKey (es ! j) \<notin> set (seg_keys es segs)" using old kj(2) by auto
    have "outline_inv es (segs @ [(i, j)]) st2"
      unfolding outline_inv_def
    proof (intro conjI)
      show "vertices st2 = seg_vertices es (segs @ [(i, j)])"
        using inv by (simp add: st2_def st1_def seg_vertices_snoc outline_inv_def)
      show "\<forall>(i, j)\<in>set (segs @ [(i, j)]). i < length es \<and> j < length es
              \<and> js_sqdist (pos (es ! i)) (pos (es ! j)) < distThreshold"
        using inv i j by (auto simp: outline_inv_def)
      show "distinct (seg_keys es (segs @ [(i, j)]))"
        using inv ni nj kj(1) by (auto simp: seg_keys_snoc outline_inv_def)
      show "\<forall>k\<in>set (seg_keys es (segs @ [(i, j)])). processed st2 k"
        using old by (auto simp: seg_keys_snoc st2_def st1_def)
    qed
    with out show ?thesis by auto
  qed
qed

lemma outline_inv_fold:
  "m \<le> length es \<Longrightarrow> \<exists>segs. outline_inv es segs (fold (outline_step es) [0..<m] outline_init)"
proof (induction m)
  case 0
  show ?case using outline_inv_init by auto
next
  case (Suc m)
  then obtain segs where "outline_inv es segs (fold (outline_step es) [0..<m] outline_init)" by auto
  from outline_inv_step[OF this, of m] Suc.prems show ?case by simp
qed

lemma connect_edges_inv: "\<exists>segs. outline_inv es segs (connect_edges es)"
  unfolding connect_edges_def by (rule outline_inv_fold) simp

lemma segments_of_seg_vertices:
  "segments_of (seg_vertices es segs) = map (\<lambda>(i, j). (pos (es ! i), pos (es ! j))) segs"
proof (induction segs)
  case Nil
  show ?case by (simp add: seg_vertices_def)
next
  case (Cons a segs)
  obtain i j where a: "a = (i, j)" by (cases a)
  obtain ax ay az where pi: "pos (es ! i) = (ax, ay, az)" by (cases "pos (es ! i)")
  obtain bx "by" bz where pj: "pos (es ! j) = (bx, by, bz)" by (cases "pos (es ! j)")
  have "seg_vertices es (a # segs) = ax # ay # az # bx # by # bz # seg_vertices es segs"
    by (simp add: seg_vertices_def a pi pj flat_def)
  with Cons show ?case by (simp add: a pi pj)
qed

subsection \<open>The sampling loop\<close>

lemma sample_loop_step_one: "sample_loop ev (Suc 0) i acc = acc @ drop i ev"
proof (induction "length ev - i" arbitrary: i acc)
  case 0
  then show ?case by (subst sample_loop.simps) simp
next
  case (Suc n)
  then have i: "i < length ev" by simp
  from Suc(1)[of "Suc i" "acc @ [ev ! i]"] Suc(2)
  have "sample_loop ev (Suc 0) (Suc i) (acc @ [ev ! i]) = (acc @ [ev ! i]) @ drop (Suc i) ev" by simp
  with i show ?case
    by (subst sample_loop.simps) (simp add: Cons_nth_drop_Suc)
qed

lemma samplingStep_mid: "5000 < n \<Longrightarrow> n < 10000 \<Longrightarrow> samplingStep n = Suc 0"
proof -
  assume n: "5000 < n" "n < 10000"
  have "n div 5000 = Suc 0" using n by (simp add: div_nat_eqI)
  with n show ?thesis by (simp add: samplingStep_def edgeSampleCount_def)
qed

lemma sampledEdges_mid: "5000 < length ev \<Longrightarrow> length ev < 10000 \<Longrightarrow> sampledEdges ev = ev"
  by (simp add: sampledEdges_def samplingStep_mid sample_loop_step_one)

lemma samplingStep_pos: "0 < samplingStep n"
  by (simp add: samplingStep_def)

lemma sample_loop_distinct:
  assumes "0 < step" "distinct (map f (acc @ drop i ev))"
  shows "distinct (map f (sample_loop ev step i acc))
         \<and> set (sample_loop ev step i acc) \<subseteq> set acc \<union> set (drop i ev)"
  using assms
proof (induction "length ev - i" arbitrary: i acc rule: less_induct)
  case less
  show ?case
  proof (cases "i < length ev")
    case False
    then show ?thesis using less(3) by (subst (1 2) sample_loop.simps) simp
  next
    case True
    have d: "drop i ev = ev ! i # drop (Suc i) ev" using True by (simp add: Cons_nth_drop_Suc)
    have "i + step = (step - 1) + Suc i" using less(2) by simp
    then have dd: "drop (i + step) ev = drop (step - 1) (drop (Suc i) ev)"
      by (simp only: drop_drop)
    have sub: "set (drop (i + step) ev) \<subseteq> set (drop (Suc i) ev)"
      unfolding dd by (rule set_drop_subset)
    have dist: "distinct (map f (drop (i + step) ev))"
    proof -
      have "distinct (map f (drop (Suc i) ev))" using less(3) d by simp
      then have "distinct (drop (step - 1) (map f (drop (Suc i) ev)))" by (rule distinct_drop)
      then show ?thesis by (simp add: dd drop_map)
    qed
    have "distinct (map f ((acc @ [ev ! i]) @ drop (i + step) ev))"
      using less(3) sub dist unfolding d by auto blast
    moreover have "length ev - (i + step) < length ev - i" using True less(2) by simp
    ultimately have ih: "distinct (map f (sample_loop ev step (i + step) (acc @ [ev ! i])))
         \<and> set (sample_loop ev step (i + step) (acc @ [ev ! i])) \<subseteq> set (acc @ [ev ! i]) \<union> set (drop (i + step) ev)"
      using less(1)[of "i + step" "acc @ [ev ! i]"] less(2) by blast
    have eq: "sample_loop ev step i acc = sample_loop ev step (i + step) (acc @ [ev ! i])"
      using True less(2) by (subst sample_loop.simps) simp
    show ?thesis unfolding eq using ih sub d by auto
  qed
qed

lemma sampledEdges_distinct:
  "distinct (map f ev) \<Longrightarrow> distinct (map f (sampledEdges ev)) \<and> set (sampledEdges ev) \<subseteq> set ev"
  using sample_loop_distinct[of "samplingStep (length ev)" f "[]" 0 ev]
  by (simp add: sampledEdges_def samplingStep_pos)

subsection \<open>The voxel grid\<close>

lemma bump_count_keys: "map fst (bump_count k g) = map fst g"
  by (induction g) (auto simp: bump_count_def)

lemma bump_count_pos: "(k', v') \<in> set (bump_count k g) \<Longrightarrow> \<exists>v. (k', v) \<in> set g \<and> pos v' = pos v"
  by (auto simp: bump_count_def split: if_splits)

lemma grid_inv_add: "grid_inv g \<Longrightarrow> grid_inv (add_point p g)"
proof -
  assume g: "grid_inv g"
  define g1 where "g1 = (if map_of g (voxelKey p) = None then g @ [(voxelKey p, \<lparr>count = 0, pos = p\<rparr>)] else g)"
  have "grid_inv g1"
    using g by (auto simp: g1_def grid_inv_def map_of_eq_None_iff)
  then have g1: "distinct (map fst g1)" "\<And>k v. (k, v) \<in> set g1 \<Longrightarrow> k = voxelKey (pos v)"
    by (auto simp: grid_inv_def)
  have "k' = voxelKey (pos v')" if "(k', v') \<in> set (bump_count (voxelKey p) g1)" for k' v'
  proof -
    from bump_count_pos[OF that] obtain v where "(k', v) \<in> set g1" "pos v' = pos v" by blast
    with g1(2) show ?thesis by simp
  qed
  with g1(1) have "grid_inv (bump_count (voxelKey p) g1)"
    unfolding grid_inv_def by (auto simp: bump_count_keys)
  then show ?thesis by (simp add: add_point_def Let_def g1_def)
qed

lemma grid_inv_voxelize: "grid_inv g \<Longrightarrow> grid_inv (voxelize points g)"
  by (induction points g rule: voxelize.induct) (simp_all add: grid_inv_add)

lemma grid_inv_distinct_pos: "grid_inv g \<Longrightarrow> distinct (map (pos \<circ> snd) g)"
proof (induction g)
  case Nil
  show ?case by simp
next
  case (Cons a g)
  then have g: "grid_inv g" by (auto simp: grid_inv_def)
  have "pos (snd a) \<notin> (pos \<circ> snd) ` set g"
  proof
    assume "pos (snd a) \<in> (pos \<circ> snd) ` set g"
    then obtain b where b: "b \<in> set g" "pos (snd b) = pos (snd a)" by auto
    from Cons.prems b(1) have "fst b = voxelKey (pos (snd b))" "fst a = voxelKey (pos (snd a))"
      by (auto simp: grid_inv_def)
    with b(2) have "fst a = fst b" by simp
    with b(1) Cons.prems show False by (auto simp: grid_inv_def)
  qed
  with Cons.IH[OF g] show ?case by simp
qed

lemma edgeVoxels_distinct: "grid_inv g \<Longrightarrow> distinct (map pos (edgeVoxels g))"
proof -
  assume "grid_inv g"
  then have "distinct (map (pos \<circ> snd) g)" by (rule grid_inv_distinct_pos)
  then have "distinct (map (pos \<circ> snd) (filter (\<lambda>(k, v). 0 < emptyNeighbors g k) g))"
    by (rule distinct_map_filter)
  then show ?thesis by (simp add: edgeVoxels_def)
qed

lemma outline_samples_distinct: "distinct (map pos (outline_samples points))"
proof -
  have "grid_inv (voxelize points [])" by (rule grid_inv_voxelize) (simp add: grid_inv_def)
  then have "distinct (map pos (edgeVoxels (voxelize points [])))" by (rule edgeVoxels_distinct)
  then show ?thesis unfolding outline_samples_def using sampledEdges_distinct by blast
qed

lemma outline_vertices_segs:
  "\<exists>segs. outline_inv (outline_samples points) segs (connect_edges (outline_samples points))
     \<and> segments_of (outline_vertices points)
         = map (\<lambda>(i, j). (pos (outline_samples points ! i), pos (outline_samples points ! j))) segs"
proof -
  obtain segs where inv: "outline_inv (outline_samples points) segs (connect_edges (outline_samples points))"
    using connect_edges_inv by blast
  then have "outline_vertices points = seg_vertices (outline_samples points) segs"
    by (simp add: outline_vertices_def outline_inv_def)
  with inv show ?thesis by (auto simp: segments_of_seg_vertices)
qed

subsection \<open>Rounding in the distance test\<close>

lemma two_powi_50: "(2::real) powi (- 50) = 1 / 1125899906842624"
  by (simp add: power_int_minus field_simps)

lemma two_powi_53: "(2::real) powi (- 53) = 1 / 9007199254740992"
  by (simp add: power_int_minus field_simps)

lemma two_powi_56: "(2::real) powi (- 56) = 1 / 72057594037927936"
  by (simp add: power_int_minus field_simps)

lemma two_powi_57: "(2::real) powi (- 57) = 1 / 144115188075855872"
  by (simp add: power_int_minus field_simps)

lemma subnormal_small: "(2::real) powi (- 1075) \<le> 1 / 144115188075855872"
proof -
  have "(2::real) powi (- 1075) \<le> 2 powi (- 57)" by (rule power_int_increasing) simp_all
  then show ?thesis by (simp only: two_powi_57)
qed

lemma fl_error_numeral: "\<bar>fl x - x\<bar> \<le> \<bar>x\<bar> * (1 / 9007199254740992) + 1 / 144115188075855872"
  using fl_error[of x] subnormal_small unfolding two_powi_53 by linarith

lemma fl_lower_small:
  assumes "0 \<le> x" "fl x < 1 / 20"
  shows "x \<le> fl x + 1 / 72057594037927936"
proof -
  have "x \<le> 1 / 16" using fl_error_numeral[of x] assms by linarith
  then show ?thesis using fl_error_numeral[of x] assms(1) by linarith
qed

lemma fl_square_bound:
  assumes "\<bar>fl d\<bar> \<le> 1 / 4"
  shows "d * d \<le> fl d * fl d + 1 / 9007199254740992"
proof -
  define r where "r = d - fl d"
  have d: "\<bar>d\<bar> \<le> 1 / 2" using fl_error_numeral[of d] assms by linarith
  then have r: "\<bar>r\<bar> \<le> 5 / 72057594037927936"
    using fl_error_numeral[of d] unfolding r_def by linarith
  have "fl d * r \<le> \<bar>fl d\<bar> * \<bar>r\<bar>" by (metis abs_ge_self abs_mult)
  also have "\<dots> \<le> 1 / 4 * \<bar>r\<bar>" using assms by (intro mult_right_mono) simp_all
  finally have c: "fl d * r \<le> 1 / 4 * \<bar>r\<bar>" .
  have "r * r \<le> \<bar>r\<bar> * \<bar>r\<bar>" by (metis abs_ge_self abs_mult)
  also have "\<dots> \<le> 1 * \<bar>r\<bar>" using r by (intro mult_right_mono) simp_all
  finally have q: "r * r \<le> \<bar>r\<bar>" by simp
  have "d * d = fl d * fl d + 2 * (fl d * r) + r * r" by (simp add: r_def algebra_simps)
  then show ?thesis using c q r by linarith
qed

lemma square_small: "(x::real) * x \<le> 1 / 16 \<Longrightarrow> \<bar>x\<bar> \<le> 1 / 4"
proof -
  assume "x * x \<le> 1 / 16"
  then have "x\<^sup>2 \<le> (1 / 4)\<^sup>2" by (simp add: power2_eq_square)
  then have "\<bar>x\<bar> \<le> \<bar>1 / 4 :: real\<bar>" by (simp only: abs_le_square_iff)
  then show ?thesis by simp
qed

lemma fl_tenth_square: "fl (12980742146337070512478121581609 / 1298074214633706907132624082305024) = 1441151880758559 / 144115188075855872"
  by (rule fl_nearest[where e = "- 7" and z = "5764607523034236"]) simp_all

lemma fl_threshold: "fl (1441151880758559 / 36028797018963968) = 1441151880758559 / 36028797018963968"
  by (rule fl_nearest[where e = "- 5" and z = "5764607523034236"]) simp_all

lemma distThreshold_value: "distThreshold = 1441151880758559 / 36028797018963968"
  by (simp add: distThreshold_def voxelSize_def fl_tenth fl_tenth_square fl_threshold)

lemma double_sqdist_eq: "double_sqdist a b = js_sqdist a b"
  by (cases a, cases b) (simp add: double_sqdist_def js_sqdist_def Let_def)

lemma double_threshold_eq: "fl (fl (fl (1 / 10) * fl (1 / 10)) * 4) = distThreshold"
  by (simp add: distThreshold_def voxelSize_def)

lemma sqdist_rounding:
  assumes "js_sqdist a b < distThreshold"
  shows "sqdist a b < 4 * cellSize\<^sup>2 + 2 powi (- 50)"
proof -
  obtain ax ay az where a: "a = (ax, ay, az)" by (cases a)
  obtain bx "by" bz where b: "b = (bx, by, bz)" by (cases b)
  define dx dy dz where "dx = fl (ax - bx)" and "dy = fl (ay - by)" and "dz = fl (az - bz)"
  define A B C where "A = fl (dx * dx)" and "B = fl (dy * dy)" and "C = fl (dz * dz)"
  define S where "S = fl (A + B)"
  have D: "fl (S + C) < 1441151880758559 / 36028797018963968"
    using assms
    by (simp add: js_sqdist_def Let_def a b distThreshold_value S_def A_def B_def C_def
        dx_def dy_def dz_def)
  have pos: "0 \<le> A" "0 \<le> B" "0 \<le> C"
    by (simp_all add: A_def B_def C_def fl_nonneg)
  then have S0: "0 \<le> S" by (simp add: S_def fl_nonneg)
  have 1: "S + C \<le> fl (S + C) + 1 / 72057594037927936"
    using S0 pos(3) D by (intro fl_lower_small) simp_all
  have 2: "A + B \<le> S + 1 / 72057594037927936"
    unfolding S_def using pos 1 D S0 by (intro fl_lower_small) (simp_all add: S_def[symmetric])
  have 3: "dx * dx \<le> A + 1 / 72057594037927936"
    unfolding A_def using pos 1 2 D S0 by (intro fl_lower_small) (simp_all add: A_def[symmetric])
  have 4: "dy * dy \<le> B + 1 / 72057594037927936"
    unfolding B_def using pos 1 2 D S0 by (intro fl_lower_small) (simp_all add: B_def[symmetric])
  have 5: "dz * dz \<le> C + 1 / 72057594037927936"
    unfolding C_def using pos 1 2 D S0 by (intro fl_lower_small) (simp_all add: C_def[symmetric])
  have "\<bar>dx\<bar> \<le> 1 / 4" using 1 2 3 pos S0 D by (intro square_small) linarith
  then have 6: "(ax - bx) * (ax - bx) \<le> dx * dx + 1 / 9007199254740992"
    unfolding dx_def by (rule fl_square_bound)
  have "\<bar>dy\<bar> \<le> 1 / 4" using 1 2 4 pos S0 D by (intro square_small) linarith
  then have 7: "(ay - by) * (ay - by) \<le> dy * dy + 1 / 9007199254740992"
    unfolding dy_def by (rule fl_square_bound)
  have "\<bar>dz\<bar> \<le> 1 / 4" using 1 5 pos S0 D by (intro square_small) linarith
  then have 8: "(az - bz) * (az - bz) \<le> dz * dz + 1 / 9007199254740992"
    unfolding dz_def by (rule fl_square_bound)
  have "sqdist a b = (ax - bx) * (ax - bx) + (ay - by) * (ay - by) + (az - bz) * (az - bz)"
    by (simp add: sqdist_def a b power2_eq_square)
  also have "\<dots> < 1 / 25 + 1 / 1125899906842624"
    using 1 2 3 4 5 6 7 8 D by linarith
  finally show ?thesis by (simp add: cellSize_def two_powi_50 power2_eq_square)
qed

text \<open>
  Claim C7, with the distance as the code computes it. Every line segment in the geometry
  joins the representative points of two sampled edge voxels whose squared distance, every
  difference, product and sum rounded to a double, is below the double
  \<open>0.1 * 0.1 * 4\<close>. Their exact squared distance is then below \<open>4 * cellSize\<^sup>2\<close> plus
  \<open>2\<^sup>-\<^sup>5\<^sup>0\<close>.
\<close>

theorem outline_segments_within_threshold:
  "\<forall>(a, b) \<in> set (segments_of (outline_vertices points)).
     a \<in> pos ` set (outline_samples points) \<and> b \<in> pos ` set (outline_samples points)
     \<and> double_sqdist a b < fl (fl (fl (1 / 10) * fl (1 / 10)) * 4)
     \<and> sqdist a b < 4 * cellSize\<^sup>2 + 2 powi (- 50)"
proof -
  obtain segs where inv: "outline_inv (outline_samples points) segs (connect_edges (outline_samples points))"
    and seg: "segments_of (outline_vertices points)
         = map (\<lambda>(i, j). (pos (outline_samples points ! i), pos (outline_samples points ! j))) segs"
    using outline_vertices_segs by blast
  from inv have "\<forall>(i, j) \<in> set segs. i < length (outline_samples points) \<and> j < length (outline_samples points)
            \<and> js_sqdist (pos (outline_samples points ! i)) (pos (outline_samples points ! j)) < distThreshold"
    by (simp add: outline_inv_def)
  then have "\<forall>(i, j) \<in> set segs. pos (outline_samples points ! i) \<in> pos ` set (outline_samples points)
            \<and> pos (outline_samples points ! j) \<in> pos ` set (outline_samples points)
            \<and> double_sqdist (pos (outline_samples points ! i)) (pos (outline_samples points ! j))
                < fl (fl (fl (1 / 10) * fl (1 / 10)) * 4)
            \<and> sqdist (pos (outline_samples points ! i)) (pos (outline_samples points ! j))
                < 4 * cellSize\<^sup>2 + 2 powi (- 50)"
    unfolding double_sqdist_eq double_threshold_eq using nth_mem sqdist_rounding by blast
  then show ?thesis unfolding seg by auto
qed

subsection \<open>The cloud of the origin and a point near the threshold\<close>

lemma fl_near_cell_x: "fl (4526607401779980 / 3602879701896397) = 5658259252224975 / 4503599627370496"
  by (rule fl_nearest[where e = "0" and z = "5658259252224975"]) simp_all

lemma fl_near_cell_y: "fl (4673922383038091 / 3602879701896397) = 5842402978797613 / 4503599627370496"
  by (rule fl_nearest[where e = "0" and z = "5842402978797613"]) simp_all

lemma fl_near_cell_z: "fl (6192654866157009 / 7205759403792794) = 7740818582696261 / 9007199254740992"
  by (rule fl_nearest[where e = "- 1" and z = "7740818582696261"]) simp_all

lemma fl_near_diff_x: "fl (- (1131651850444995 / 9007199254740992)) = - (1131651850444995 / 9007199254740992)"
  by (rule fl_nearest[where e = "- 3" and z = "- 4526607401779980"]) simp_all

lemma fl_near_square_x: "fl (1280635910615581330179520550025 / 81129638414606681695789005144064) = 4549732717207111 / 288230376151711744"
  by (rule fl_nearest[where e = "- 6" and z = "4549732717207111"]) simp_all

lemma fl_near_diff_y: "fl (- (4673922383038091 / 36028797018963968)) = - (4673922383038091 / 36028797018963968)"
  by (rule fl_nearest[where e = "- 3" and z = "- 4673922383038091"]) simp_all

lemma fl_near_square_y: "fl (21845550442664467443983156924281 / 1298074214633706907132624082305024) = 2425343308705637 / 144115188075855872"
  by (rule fl_nearest[where e = "- 6" and z = "4850686617411274"]) simp_all

lemma fl_near_diff_z: "fl (- (6192654866157009 / 72057594037927936)) = - (6192654866157009 / 72057594037927936)"
  by (rule fl_nearest[where e = "- 4" and z = "- 6192654866157009"]) simp_all

lemma fl_near_square_z: "fl (38348974291338083051736239826081 / 5192296858534827628530496329220096) = 8515182845800347 / 1152921504606846976"
  by (rule fl_nearest[where e = "- 8" and z = "8515182845800347"]) simp_all

lemma fl_near_sum_xy: "fl (9400419334618385 / 288230376151711744) = 587526208413649 / 18014398509481984"
  by (rule fl_nearest_even[where e = "- 5" and z = "4700209667309192"]) simp_all

lemma fl_near_sum_xyz: "fl (46116860184273883 / 1152921504606846976) = 5764607523034235 / 144115188075855872"
  by (rule fl_nearest[where e = "- 5" and z = "5764607523034235"]) simp_all

lemma near_cell: "voxelKey near_point = (1, 1, 0)"
  by (simp add: voxelKey_def near_point_def voxelSize_def fl_tenth fl_near_cell_x fl_near_cell_y
      fl_near_cell_z)

lemma origin_cell: "voxelKey (0, 0, 0) = (0, 0, 0)"
  by (simp add: voxelKey_def)

lemma near_sqdist: "js_sqdist (0, 0, 0) near_point = 5764607523034235 / 144115188075855872"
  by (simp add: js_sqdist_def near_point_def Let_def fl_near_diff_x fl_near_diff_y fl_near_diff_z
      fl_near_square_x fl_near_square_y fl_near_square_z fl_near_sum_xy fl_near_sum_xyz)

lemma near_key: "fixedKey near_point = ((False, 126), (False, 130), (False, 86))"
  by (simp add: fixedKey_def near_point_def toFixed3_def)

lemma origin_key: "fixedKey (0, 0, 0) = ((False, 0), (False, 0), (False, 0))"
  by (simp add: fixedKey_def toFixed3_def)

lemma near_pair_grid:
  "voxelize near_pair []
     = [((0, 0, 0), \<lparr>count = 1, pos = (0, 0, 0)\<rparr>), ((1, 1, 0), \<lparr>count = 1, pos = near_point\<rparr>)]"
proof -
  have "voxelize near_pair [] = add_point near_point (add_point (0, 0, 0) [])"
    by (simp add: near_pair_def near_point_def)
  then show ?thesis by (simp add: add_point_def Let_def origin_cell near_cell bump_count_def)
qed

lemma near_pair_samples:
  "outline_samples near_pair = [\<lparr>count = 1, pos = (0, 0, 0)\<rparr>, \<lparr>count = 1, pos = near_point\<rparr>]"
proof -
  have "edgeVoxels (voxelize near_pair [])
      = [\<lparr>count = 1, pos = (0, 0, 0)\<rparr>, \<lparr>count = 1, pos = near_point\<rparr>]"
    by (simp add: near_pair_grid edgeVoxels_def emptyNeighbors_def directions_def neighborKey_def)
  then show ?thesis
    by (simp add: outline_samples_def sampledEdges_def samplingStep_def edgeSampleCount_def
        sample_loop.simps)
qed

lemma near_pair_nearest:
  "find_nearest [\<lparr>count = c, pos = (0, 0, 0)\<rparr>, \<lparr>count = c', pos = near_point\<rparr>]
     ((\<lambda>k. False)(((False, 0), (False, 0), (False, 0)) := True)) 0
   = Some (1, 5764607523034235 / 144115188075855872)"
proof -
  have "[0..<length [\<lparr>count = c, pos = (0, 0, 0)\<rparr>, \<lparr>count = c', pos = near_point\<rparr>]] = [0, 1]"
    by (simp add: upt_rec)
  then show ?thesis
    by (simp add: find_nearest_def nearest_step_def posKey_def near_key near_sqdist
        distThreshold_value Let_def)
qed

lemma near_pair_state:
  "connect_edges (outline_samples near_pair)
     = \<lparr>vertices = flat (0, 0, 0) @ flat near_point,
        processed = ((\<lambda>k. False)(((False, 0), (False, 0), (False, 0)) := True))
                      (((False, 126), (False, 130), (False, 86)) := True)\<rparr>"
proof -
  have "[0..<length [\<lparr>count = 1, pos = (0, 0, 0)\<rparr>, \<lparr>count = 1, pos = near_point\<rparr>]] = [0, 1]"
    by (simp add: upt_rec)
  then show ?thesis
    by (simp add: near_pair_samples connect_edges_def outline_step_def outline_init_def posKey_def
        origin_key near_key near_pair_nearest Let_def)
qed

lemma near_pair_segments: "segments_of (outline_vertices near_pair) = [((0, 0, 0), near_point)]"
  by (simp add: outline_vertices_def near_pair_state flat_def near_point_def)

text \<open>
  The cloud \<open>near_pair\<close> yields one segment. Its squared distance as doubles compute it
  is the double \<open>0.04\<close>, below the double \<open>0.1 * 0.1 * 4\<close>, which is
  \<open>0.04000000000000001\<close>; its exact squared distance is above \<open>4 * cellSize\<^sup>2\<close>, and
  above the exact value of that double as well.
\<close>

theorem outline_segment_beyond_threshold:
  "((0, 0, 0), near_point) \<in> set (segments_of (outline_vertices near_pair))
   \<and> \<not> sqdist (0, 0, 0) near_point < 4 * cellSize\<^sup>2
   \<and> \<not> sqdist (0, 0, 0) near_point < fl (fl (fl (1 / 10) * fl (1 / 10)) * 4)"
  by (simp add: near_pair_segments sqdist_def near_point_def cellSize_def power2_eq_square
      fl_tenth fl_tenth_square fl_threshold)

theorem outline_segments_within_threshold_witness:
  "((0, 0, 0), near_point) \<in> set (segments_of (outline_vertices near_pair))
   \<and> double_sqdist (0, 0, 0) near_point < fl (fl (fl (1 / 10) * fl (1 / 10)) * 4)
   \<and> sqdist (0, 0, 0) near_point < 4 * cellSize\<^sup>2 + 2 powi (- 50)"
proof -
  have m: "((0, 0, 0), near_point) \<in> set (segments_of (outline_vertices near_pair))"
    by (simp add: near_pair_segments)
  from bspec[OF outline_segments_within_threshold m] m show ?thesis by simp
qed

lemma distinct_keys_pos:
  "distinct (map (\<lambda>n. posKey (es ! n)) ns) \<Longrightarrow> distinct (map (\<lambda>n. pos (es ! n)) ns)"
proof (induction ns)
  case Nil
  show ?case by simp
next
  case (Cons n ns)
  have "pos (es ! n) \<notin> (\<lambda>n. pos (es ! n)) ` set ns"
  proof
    assume "pos (es ! n) \<in> (\<lambda>n. pos (es ! n)) ` set ns"
    then obtain m where m: "m \<in> set ns" "pos (es ! m) = pos (es ! n)" by auto
    then have "posKey (es ! m) = posKey (es ! n)" by (simp add: posKey_def)
    with m(1) Cons.prems show False by (auto simp: image_iff)
  qed
  with Cons show ?case by simp
qed

lemma endpoints_map:
  "endpoints (map (\<lambda>(i, j). (pos (es ! i), pos (es ! j))) segs)
     = map (\<lambda>n. pos (es ! n)) (concat (map (\<lambda>(i, j). [i, j]) segs))"
  by (induction segs) (auto simp: endpoints_def)

text \<open>
  Claim C10. The sampled edge voxels have pairwise different representative points, every
  end point of a segment is one of them, and no point occurs twice among the end points
  of all segments: a sampled edge voxel is an end point of at most one segment. Every
  end point, whether it was the current voxel or the nearest neighbour, is marked in
  \<open>processed\<close> when the loop ends.
\<close>

theorem outline_endpoints_distinct:
  "distinct (map pos (outline_samples points))
   \<and> set (endpoints (segments_of (outline_vertices points))) \<subseteq> pos ` set (outline_samples points)
   \<and> distinct (endpoints (segments_of (outline_vertices points)))
   \<and> (\<forall>a \<in> set (endpoints (segments_of (outline_vertices points))).
         processed (connect_edges (outline_samples points)) (fixedKey a))"
proof -
  obtain segs where inv: "outline_inv (outline_samples points) segs (connect_edges (outline_samples points))"
    and seg: "segments_of (outline_vertices points)
         = map (\<lambda>(i, j). (pos (outline_samples points ! i), pos (outline_samples points ! j))) segs"
    using outline_vertices_segs by blast
  from inv have d: "distinct (seg_keys (outline_samples points) segs)"
    and b: "\<forall>(i, j) \<in> set segs. i < length (outline_samples points) \<and> j < length (outline_samples points)"
    and m: "\<forall>k \<in> set (seg_keys (outline_samples points) segs).
              processed (connect_edges (outline_samples points)) k"
    by (auto simp: outline_inv_def)
  from d have "distinct (endpoints (segments_of (outline_vertices points)))"
    unfolding seg endpoints_map seg_keys_def by (rule distinct_keys_pos)
  moreover have "set (endpoints (segments_of (outline_vertices points))) \<subseteq> pos ` set (outline_samples points)"
  proof -
    have "\<forall>(i, j) \<in> set segs. pos (outline_samples points ! i) \<in> pos ` set (outline_samples points)
            \<and> pos (outline_samples points ! j) \<in> pos ` set (outline_samples points)"
      using b nth_mem by blast
    then show ?thesis unfolding seg endpoints_map by auto
  qed
  moreover have "\<forall>a \<in> set (endpoints (segments_of (outline_vertices points))).
         processed (connect_edges (outline_samples points)) (fixedKey a)"
    using m unfolding seg endpoints_map seg_keys_def by (auto simp: posKey_def)
  ultimately show ?thesis using outline_samples_distinct by blast
qed

theorem outline_endpoints_distinct_witness:
  "near_point \<in> set (endpoints (segments_of (outline_vertices near_pair)))
   \<and> processed (connect_edges (outline_samples near_pair)) (fixedKey near_point)"
proof -
  have m: "near_point \<in> set (endpoints (segments_of (outline_vertices near_pair)))"
    by (simp add: near_pair_segments endpoints_def)
  from outline_endpoints_distinct[of near_pair]
  have "\<forall>a \<in> set (endpoints (segments_of (outline_vertices near_pair))).
         processed (connect_edges (outline_samples near_pair)) (fixedKey a)"
    by blast
  from bspec[OF this m] m show ?thesis by blast
qed

text \<open>
  The cell of the double \<open>1.7\<close>: the quotient \<open>1.7 / 0.1\<close> rounds to the double \<open>17\<close>,
  although the exact quotient of the two doubles is below 17.
\<close>

lemma fl_seventeen_tenths: "fl (17 / 10) = 7656119366529843 / 4503599627370496"
  by (rule fl_nearest[where e = "0" and z = "7656119366529843"]) simp_all

lemma fl_cell_seventeen: "fl (61248954932238744 / 3602879701896397) = 17"
  by (rule fl_nearest[where e = "4" and z = "4785074604081152"]) simp_all

lemma voxelKey_seventeen: "voxelKey (fl (17 / 10), 0, 0) = (17, 0, 0)"
  by (simp add: voxelKey_def voxelSize_def fl_tenth fl_seventeen_tenths fl_cell_seventeen)

lemma exact_cell_seventeen: "\<lfloor>fl (17 / 10) / fl (1 / 10)\<rfloor> = 16"
  by (simp add: fl_tenth fl_seventeen_tenths)

subsection \<open>A cloud of 5001 isolated points\<close>

lemma voxelKey_line: "voxelKey (real k, 0, 0) = (line_key k, 0, 0)"
  by (simp add: voxelKey_def line_key_def)

lemma line_key_bounds:
  assumes "k \<le> 10000"
  shows "10 * int k - 1 \<le> line_key k \<and> line_key k \<le> 10 * int k"
proof -
  define x where "x = real k / voxelSize"
  have x: "x = 10 * real k - 2 * real k / 3602879701896397"
    by (simp add: x_def voxelSize_def fl_tenth field_simps)
  have k: "0 \<le> real k" "real k \<le> 10000" using assms by simp_all
  have "0 \<le> 2 * real k / 3602879701896397" "2 * real k / 3602879701896397 \<le> 1 / 4"
    using k by simp_all
  with x k have b: "10 * real k - 1 / 4 \<le> x" "x \<le> 10 * real k" "0 \<le> x" "x \<le> 100000"
    by linarith+
  then have e: "\<bar>fl x - x\<bar> \<le> 1 / 4" using fl_error_numeral[of x] by linarith
  have "10 * real k - 1 \<le> fl x" using b e by linarith
  then have lo: "10 * int k - 1 \<le> \<lfloor>fl x\<rfloor>" by (simp add: le_floor_iff)
  have "fl x < 10 * real k + 1" using b e by linarith
  then have "fl x < real_of_int (10 * int k + 1)" by simp
  then have hi: "\<lfloor>fl x\<rfloor> < 10 * int k + 1" by (simp only: floor_less_iff)
  from lo hi show ?thesis by (simp add: line_key_def x_def)
qed

lemma line_key_less:
  assumes "j < k" "k \<le> 10000"
  shows "line_key j < line_key k"
  using line_key_bounds[of j] line_key_bounds[of k] assms by linarith

lemma line_grid_Suc:
  "line_grid (Suc m) = line_grid m @ [((line_key m, 0, 0), \<lparr>count = 1, pos = (real m, 0, 0)\<rparr>)]"
  by (simp add: line_grid_def)

lemma line_grid_keys: "fst ` set (line_grid m) = (\<lambda>k. (line_key k, 0, 0)) ` {0..<m}"
  by (simp add: line_grid_def image_image)

lemma line_key_fresh:
  assumes "m \<le> 10000"
  shows "(line_key m, 0, 0) \<notin> fst ` set (line_grid m)"
proof
  assume "(line_key m, 0, 0) \<in> fst ` set (line_grid m)"
  then obtain k where k: "k < m" "line_key k = line_key m"
    unfolding line_grid_keys by auto
  with line_key_less[OF k(1) assms] show False by simp
qed

lemma line_grid_fresh: "m \<le> 10000 \<Longrightarrow> map_of (line_grid m) (line_key m, 0, 0) = None"
  using line_key_fresh[of m] by (simp add: map_of_eq_None_iff)

lemma bump_other: "k \<notin> fst ` set g \<Longrightarrow> bump_count k g = g"
  by (induction g) (auto simp: bump_count_def)

lemma add_point_line:
  assumes "m \<le> 10000"
  shows "add_point (real m, 0, 0) (line_grid m) = line_grid (Suc m)"
proof -
  have "(line_key m, 0, 0) \<notin> fst ` set (line_grid m)" using assms by (rule line_key_fresh)
  then have "bump_count (line_key m, 0, 0) (line_grid m) = line_grid m" by (rule bump_other)
  then show ?thesis
    using assms
    by (simp add: add_point_def Let_def voxelKey_line line_grid_fresh line_grid_Suc bump_count_def)
qed

lemma voxelize_line:
  "m + d \<le> 10001 \<Longrightarrow>
   voxelize (concat (map (\<lambda>k. [real k, 0, 0]) [m..<m + d])) (line_grid m) = line_grid (m + d)"
proof (induction d arbitrary: m)
  case 0
  show ?case by simp
next
  case (Suc d)
  have "[m..<m + Suc d] = m # [Suc m..<Suc m + d]" by (simp add: upt_rec)
  then show ?case using Suc.IH[of "Suc m"] Suc.prems by (simp add: add_point_line)
qed

lemma voxelize_line_cloud: "n \<le> 10001 \<Longrightarrow> voxelize (line_cloud n) [] = line_grid n"
  using voxelize_line[of 0 n] by (simp add: line_cloud_def line_grid_def)

lemma line_grid_all_edges: "edgeVoxels (line_grid n) = map snd (line_grid n)"
proof -
  have "0 < emptyNeighbors (line_grid n) k" for k
  proof -
    obtain a b c where k: "k = (a, b, c)" by (cases k)
    have "map_of (line_grid n) (neighborKey k (0, 1, 0)) = None
          \<or> map_of (line_grid n) (neighborKey k (0, -1, 0)) = None"
      by (auto simp: map_of_eq_None_iff line_grid_keys neighborKey_def k)
    then have "\<exists>d \<in> set directions. map_of (line_grid n) (neighborKey k d) = None"
      by (auto simp: directions_def)
    then have "filter (\<lambda>d. map_of (line_grid n) (neighborKey k d) = None) directions \<noteq> []"
      by (simp add: filter_empty_conv)
    then show ?thesis by (simp add: emptyNeighbors_def)
  qed
  then show ?thesis by (simp add: edgeVoxels_def)
qed

text \<open>
  Claim C6. With between 5001 and 9999 edge voxels the sampling step
  \<open>Math.floor(n / 5000)\<close> is 1 and every edge voxel is sampled; the cloud of 5001
  isolated points yields 5001 sampled edge voxels, more than the cap of 5000.
\<close>

theorem outline_samples_exceed_cap: "length (outline_samples (line_cloud 5001)) = 5001"
proof -
  have "length (line_grid 5001) = 5001" by (simp add: line_grid_def)
  moreover have "voxelize (line_cloud 5001) [] = line_grid 5001"
    by (rule voxelize_line_cloud) simp
  ultimately have "length (edgeVoxels (voxelize (line_cloud 5001) [])) = 5001"
    by (simp only: line_grid_all_edges length_map)
  then show ?thesis by (simp add: outline_samples_def sampledEdges_mid)
qed

section \<open>Properties of the relation table and the recommendation\<close>

lemma visibleCameras_set: "set (visibleCameras prs) = {e \<in> set prs. isVisible (snd e)}"
  by (auto simp: visibleCameras_def)

lemma visibleCameras_empty: "(visibleCameras prs = []) = (\<forall>e \<in> set prs. \<not> isVisible (snd e))"
proof -
  have "(visibleCameras prs = []) = (set (visibleCameras prs) = {})" by simp
  then show ?thesis unfolding visibleCameras_set by auto
qed

lemma visibleCameras_head:
  assumes "visibleCameras prs = (c, r) # rest"
  shows "(c, r) \<in> set prs \<and> isVisible r
         \<and> (\<forall>e \<in> set prs. isVisible (snd e) \<longrightarrow> qualityScore (snd e) \<le> qualityScore r)"
proof -
  have "(c, r) \<in> set (visibleCameras prs)" using assms by simp
  then have m: "(c, r) \<in> set prs" "isVisible r" unfolding visibleCameras_set by auto
  have "sorted (map (\<lambda>e. - qualityScore (snd e)) (visibleCameras prs))"
    unfolding visibleCameras_def by (rule sorted_sort_key)
  then have "\<forall>e \<in> set rest. - qualityScore r \<le> - qualityScore (snd e)"
    unfolding assms by simp
  then have "\<forall>e \<in> set (visibleCameras prs). qualityScore (snd e) \<le> qualityScore r"
    unfolding assms by auto
  then have "\<forall>e \<in> set prs. isVisible (snd e) \<longrightarrow> qualityScore (snd e) \<le> qualityScore r"
    unfolding visibleCameras_set by auto
  with m show ?thesis by blast
qed

lemma visibleCameras_first_of_ties:
  assumes "visibleCameras prs = (c, r) # rest"
  shows "\<exists>others. filter (\<lambda>e. isVisible (snd e) \<and> qualityScore (snd e) = qualityScore r) prs
                 = (c, r) # others"
proof -
  let ?f = "\<lambda>e::string \<times> relation. - qualityScore (snd e)"
  let ?vis = "filter (\<lambda>e. isVisible (snd e)) prs"
  have "filter (\<lambda>e. ?f e = - qualityScore r) (sort_key ?f ?vis) = filter (\<lambda>e. ?f e = - qualityScore r) ?vis"
    by (rule sort_key_stable)
  then have "filter (\<lambda>e. ?f e = - qualityScore r) ((c, r) # rest) = filter (\<lambda>e. ?f e = - qualityScore r) ?vis"
    using assms by (simp add: visibleCameras_def)
  then have "(c, r) # filter (\<lambda>e. ?f e = - qualityScore r) rest
      = filter (\<lambda>e. isVisible (snd e) \<and> qualityScore (snd e) = qualityScore r) prs"
    by (simp add: conj_commute)
  then show ?thesis by metis
qed

lemma personRelations_keys: "map fst (personRelations project containsPoint cameras p) = map fst cameras"
  by (induction cameras) (auto simp: personRelations_def)

text \<open>
  Claim C2, as the code has it. When the first person of the table has no visible camera,
  or the table is empty, \<open>updateRecommendedCamera\<close> returns early and the recommendation
  keeps its previous value. Otherwise the recommendation becomes the id of an entry of
  that person with \<open>isVisible\<close> set whose quality score is the highest among the visible
  entries, the first such entry in enumeration order. The entries of a person carry
  exactly the ids of the input cameras.
\<close>

theorem recommendation_is_best_visible:
  "((\<forall>e \<in> set prs. \<not> isVisible (snd e)) \<longrightarrow>
      updateRecommendedCamera ((personId, prs) # others) recommended = recommended)
   \<and> ((\<exists>e \<in> set prs. isVisible (snd e)) \<longrightarrow>
        (\<exists>c r. updateRecommendedCamera ((personId, prs) # others) recommended = Some c
           \<and> (c, r) \<in> set prs \<and> isVisible r
           \<and> (\<forall>e \<in> set prs. isVisible (snd e) \<longrightarrow> qualityScore (snd e) \<le> qualityScore r)
           \<and> (\<exists>ties. filter (\<lambda>e. isVisible (snd e) \<and> qualityScore (snd e) = qualityScore r) prs
                  = (c, r) # ties)))
   \<and> updateRecommendedCamera [] recommended = recommended
   \<and> map fst (personRelations project containsPoint cameras p) = map fst cameras"
proof (intro conjI impI)
  show "updateRecommendedCamera ((personId, prs) # others) recommended = recommended"
    if "\<forall>e \<in> set prs. \<not> isVisible (snd e)"
  proof -
    from that have "visibleCameras prs = []" by (simp only: visibleCameras_empty)
    then show ?thesis by (simp add: updateRecommendedCamera_def)
  qed
  show "\<exists>c r. updateRecommendedCamera ((personId, prs) # others) recommended = Some c
           \<and> (c, r) \<in> set prs \<and> isVisible r
           \<and> (\<forall>e \<in> set prs. isVisible (snd e) \<longrightarrow> qualityScore (snd e) \<le> qualityScore r)
           \<and> (\<exists>ties. filter (\<lambda>e. isVisible (snd e) \<and> qualityScore (snd e) = qualityScore r) prs
                  = (c, r) # ties)"
    if "\<exists>e \<in> set prs. isVisible (snd e)"
  proof -
    from that have "visibleCameras prs \<noteq> []" by (simp only: visibleCameras_empty) simp
    then obtain c r rest where v: "visibleCameras prs = (c, r) # rest"
      by (cases "visibleCameras prs") auto
    have "updateRecommendedCamera ((personId, prs) # others) recommended = Some c"
      by (simp add: updateRecommendedCamera_def v)
    with visibleCameras_head[OF v] visibleCameras_first_of_ties[OF v] show ?thesis by blast
  qed
  show "updateRecommendedCamera [] recommended = recommended"
    by (simp add: updateRecommendedCamera_def)
  show "map fst (personRelations project containsPoint cameras p) = map fst cameras"
    by (rule personRelations_keys)
qed

text \<open>
  After a tick in which camera \<open>0\<close> sees the person, a tick in which no camera does
  leaves camera \<open>0\<close> recommended: the recommendation is not "none".
\<close>

theorem stale_recommendation:
  "\<not> updateRecommendedCamera [(''person_1'', [(''0'', unseen)])]
        (updateRecommendedCamera [(''person_1'', [(''0'', seen)])] None) = None"
  by (simp add: updateRecommendedCamera_def visibleCameras_def seen_def unseen_def)

theorem recommendation_is_best_visible_witness:
  "(\<exists>c r. updateRecommendedCamera [(''person_1'', [(''0'', unseen), (''1'', seen)])] None = Some c
           \<and> (c, r) \<in> set [(''0'', unseen), (''1'', seen)] \<and> isVisible r)
   \<and> updateRecommendedCamera [(''person_1'', [(''0'', unseen)])] (Some ''1'') = Some ''1''"
proof -
  have a: "\<exists>e \<in> set [(''0'', unseen), (''1'', seen)]. isVisible (snd e)" by (simp add: seen_def)
  have b: "\<forall>e \<in> set [(''0'', unseen)]. \<not> isVisible (snd e)" by (simp add: unseen_def)
  from recommendation_is_best_visible[of "[(''0'', unseen), (''1'', seen)]" "''person_1''" "[]" None] a
  have "\<exists>c r. updateRecommendedCamera [(''person_1'', [(''0'', unseen), (''1'', seen)])] None = Some c
           \<and> (c, r) \<in> set [(''0'', unseen), (''1'', seen)] \<and> isVisible r" by blast
  moreover from recommendation_is_best_visible[of "[(''0'', unseen)]" "''person_1''" "[]" "Some ''1''"] b
  have "updateRecommendedCamera [(''person_1'', [(''0'', unseen)])] (Some ''1'') = Some ''1''" by blast
  ultimately show ?thesis by blast
qed

text \<open>
  Claim C4. The quality score of a camera/person pair is
  \<open>distanceScore * 0.4 + centerScore * 0.3 + angleScore * 0.3\<close>, where the distance score is
  \<open>1 - min(1, |distance - 5| / 5)\<close> of the Euclidean distance, the center score is
  \<open>1 - min(1, offset)\<close> of the distance of the projected position from the frame center,
  and the angle score is \<open>dot * 0.5 + 0.5\<close> of the person's facing direction with the
  normalized direction from the camera to the person.
\<close>

theorem quality_score_formula:
  "qualityScore (camera_person_relation project containsPoint cam p)
     = spec_qualityScore
         (spec_distanceScore (distance (camera_person_relation project containsPoint cam p)))
         (spec_centerScore (centerOffset (camera_person_relation project containsPoint cam p)))
         (angleScore (camera_person_relation project containsPoint cam p))
   \<and> distance (camera_person_relation project containsPoint cam p)
       = euclid (position cam) (person_position p)
   \<and> centerOffset (camera_person_relation project containsPoint cam p)
       = sqrt ((fst (project cam (person_position p))) ^ 2 + (fst (snd (project cam (person_position p)))) ^ 2)
   \<and> angleScore (camera_person_relation project containsPoint cam p)
       = vdot (person_direction p) (normalize (vsub (person_position p) (position cam))) * 0.5 + 0.5"
  by (simp add: camera_person_relation_def Let_def spec_qualityScore_def spec_distanceScore_def
      spec_centerScore_def optimalDistance_def split: prod.splits)

text \<open>
  A camera at the optimal distance that centers the person and faces the person's front
  scores 1.
\<close>

lemma quality_score_at_optimum:
  assumes "euclid (position cam) (person_position p) = 5"
    and "project cam (person_position p) = (0, 0, nz)"
    and "vdot (person_direction p) (normalize (vsub (person_position p) (position cam))) = 1"
  shows "qualityScore (camera_person_relation project containsPoint cam p) = 1"
  using assms by (simp add: camera_person_relation_def Let_def optimalDistance_def)

section \<open>Properties of the reconnection logic\<close>

lemma attemptReconnect_exhausted: "maxRetries s \<le> retryCount s \<Longrightarrow> attemptReconnect s = s"
  by (simp add: attemptReconnect_def)

lemma attemptReconnect_schedules:
  "retryCount s < maxRetries s \<Longrightarrow>
     attemptReconnect s = s\<lparr>retryCount := Suc (retryCount s),
                            timers := timers s @ [backoff (retryDelay s) (Suc (retryCount s))]\<rparr>"
  by (simp add: attemptReconnect_def Let_def backoff_def)

lemma follows_refl: "retryCount s \<le> maxRetries s \<Longrightarrow> follows s s"
  by (simp add: follows_def)

lemma follows_attempt: "follows s0 s \<Longrightarrow> follows s0 (attemptReconnect s)"
proof (cases "retryCount s < maxRetries s")
  case False
  assume "follows s0 s"
  with False show ?thesis by (simp add: attemptReconnect_exhausted)
next
  case True
  assume f: "follows s0 s"
  have "[Suc (retryCount s0)..<Suc (Suc (retryCount s))]
        = [Suc (retryCount s0)..<Suc (retryCount s)] @ [Suc (retryCount s)]"
    using f by (simp add: follows_def)
  with f True show ?thesis
    by (simp add: attemptReconnect_schedules follows_def)
qed

lemma follows_trigger: "follows s0 s \<Longrightarrow> follows s0 (triggerEvent e s)"
  by (simp add: follows_def triggerEvent_def)

lemma follows_step: "a \<noteq> OnOpen \<Longrightarrow> follows s0 s \<Longrightarrow> follows s0 (service_step a s)"
proof (cases a)
  case (DoConnect throws)
  assume f: "follows s0 s"
  have "follows s0 (s\<lparr>socket := True\<rparr>)" using f by (simp add: follows_def)
  with f DoConnect show ?thesis
    by (simp add: connect_def follows_attempt follows_trigger)
next
  case DoDisconnect
  assume f: "follows s0 s"
  then have "follows s0 (s\<lparr>socket := False, connected' := False\<rparr>)" by (simp add: follows_def)
  with f DoDisconnect show ?thesis by (simp add: disconnect_def)
next
  case OnOpen
  assume "a \<noteq> OnOpen"
  with OnOpen show ?thesis by simp
next
  case OnClose
  assume f: "follows s0 s"
  then have "follows s0 (s\<lparr>connected' := False\<rparr>)" by (simp add: follows_def)
  with OnClose show ?thesis by (simp add: onclose_def follows_attempt follows_trigger)
next
  case OnError
  assume f: "follows s0 s"
  with OnError show ?thesis by (simp add: onerror_def follows_trigger)
next
  case (OnMessage m)
  assume f: "follows s0 s"
  with OnMessage show ?thesis by (cases m) (simp_all add: onmessage_def follows_trigger)
qed

lemma follows_run:
  "OnOpen \<notin> set acts \<Longrightarrow> follows s0 s \<Longrightarrow> follows s0 (service_run acts s)"
  unfolding service_run_def
proof (induction acts arbitrary: s)
  case Nil
  then show ?case by simp
next
  case (Cons a acts)
  from Cons.prems have "a \<noteq> OnOpen" "OnOpen \<notin> set acts" by auto
  with Cons.IH[of "service_step a s"] follows_step[of a s0 s] Cons.prems(2)
  show ?case by simp
qed

lemma service_run_append: "service_run (as @ bs) s = service_run bs (service_run as s)"
  by (simp add: service_run_def)

lemma onclose_emits: "emitted (onclose s) = emitted s @ [Disconnect]"
  by (simp add: onclose_def attemptReconnect_def triggerEvent_def Let_def)

lemma onclose_disconnected: "\<not> connected' (onclose s)"
  by (simp add: onclose_def attemptReconnect_def triggerEvent_def Let_def)

lemma onopen_resets: "retryCount (onopen s) = 0 \<and> maxRetries (onopen s) = maxRetries s"
  by (simp add: onopen_def triggerEvent_def)

text \<open>
  Claim C9, as the code has it. In a run without a successful open the retry count never
  exceeds \<open>maxRetries\<close>, and the reconnections scheduled are exactly the retries counted:
  the \<open>k\<close>-th retry is delayed by \<open>retryDelay * 1.5 ^ (k - 1)\<close>. With the retry count at
  the bound \<open>_attemptReconnect\<close> schedules nothing. Every close raises \<open>disconnect\<close> and
  clears \<open>connected\<close>. A successful open resets the retry count to 0, so the bound holds
  from each open to the next; a new service starts with count 0, bound 5 and delay 2000.
\<close>

theorem reconnect_bounded_between_opens:
  "(OnOpen \<notin> set acts \<longrightarrow> retryCount s0 \<le> maxRetries s0 \<longrightarrow>
      retryCount (service_run acts s0) \<le> maxRetries s0
      \<and> timers (service_run acts s0)
          = timers s0 @ map (backoff (retryDelay s0)) [Suc (retryCount s0)..<Suc (retryCount (service_run acts s0))])
   \<and> (maxRetries s \<le> retryCount s \<longrightarrow> attemptReconnect s = s)
   \<and> emitted (onclose s) = emitted s @ [Disconnect] \<and> \<not> connected' (onclose s)
   \<and> retryCount (onopen s) = 0 \<and> maxRetries (onopen s) = maxRetries s
   \<and> retryCount new_service = 0 \<and> maxRetries new_service = 5 \<and> retryDelay new_service = 2000
   \<and> backoff base k = base * (3 / 2) ^ (k - 1)"
proof (intro conjI impI)
  assume a: "OnOpen \<notin> set acts" "retryCount s0 \<le> maxRetries s0"
  from follows_run[OF a(1) follows_refl[OF a(2)]]
  show "retryCount (service_run acts s0) \<le> maxRetries s0"
    and "timers (service_run acts s0)
          = timers s0 @ map (backoff (retryDelay s0)) [Suc (retryCount s0)..<Suc (retryCount (service_run acts s0))]"
    by (simp_all add: follows_def)
qed (simp_all add: attemptReconnect_exhausted onclose_emits onclose_disconnected onopen_resets
      new_service_def backoff_def)

lemma run_five: "service_run five_failures new_service =
    \<lparr>socket = True, connected' = False, retryCount = 5, maxRetries = 5, retryDelay = 2000,
      timers = [2000, 3000, 4500, 6750, 10125],
      emitted = [Disconnect, Disconnect, Disconnect, Disconnect, Disconnect]\<rparr>"
  by (simp add: five_failures_def service_run_def new_service_def connect_def onclose_def
      attemptReconnect_def triggerEvent_def Let_def)

text \<open>
  The retry count reaches the bound after five closes; the fifth reconnection then opens
  and resets it, and the next close schedules a sixth reconnection.
\<close>

theorem reconnects_again_after_open:
  "retryCount (service_run five_failures new_service) = maxRetries new_service
   \<and> \<not> length (timers (service_run (five_failures @ [DoConnect False, OnOpen, OnClose]) new_service)) \<le> 5"
proof -
  have "timers (service_run [DoConnect False, OnOpen, OnClose] (service_run five_failures new_service))
        = [2000, 3000, 4500, 6750, 10125, 2000]"
    unfolding run_five
    by (simp add: service_run_def connect_def onclose_def onopen_def
        attemptReconnect_def triggerEvent_def Let_def)
  moreover have "retryCount (service_run five_failures new_service) = maxRetries new_service"
    unfolding run_five by (simp add: new_service_def)
  ultimately show ?thesis
    by (simp add: service_run_append)
qed

theorem reconnect_bounded_between_opens_witness:
  "OnOpen \<notin> set five_failures \<and> retryCount new_service \<le> maxRetries new_service
   \<and> retryCount (service_run five_failures new_service) \<le> maxRetries new_service
   \<and> timers (service_run five_failures new_service) = [2000, 3000, 4500, 6750, 10125]
   \<and> maxRetries (service_run five_failures new_service) \<le> retryCount (service_run five_failures new_service)
   \<and> attemptReconnect (service_run five_failures new_service) = service_run five_failures new_service"
proof -
  have a: "OnOpen \<notin> set five_failures" by (simp add: five_failures_def)
  have b: "retryCount new_service \<le> maxRetries new_service" by (simp add: new_service_def)
  have c: "maxRetries (service_run five_failures new_service) \<le> retryCount (service_run five_failures new_service)"
    by (simp add: run_five)
  note t = reconnect_bounded_between_opens[of five_failures new_service "service_run five_failures new_service"]
  from t a b have "retryCount (service_run five_failures new_service) \<le> maxRetries new_service" by blast
  moreover from t c have "attemptReconnect (service_run five_failures new_service) = service_run five_failures new_service"
    by blast
  moreover have "timers (service_run five_failures new_service) = [2000, 3000, 4500, 6750, 10125]"
    by (simp add: run_five)
  ultimately show ?thesis using a b c by blast
qed

end
